theory Spec2Isabelle
  imports Complex_Main
begin

section \<open>Exceptions\<close>

text \<open>
  The exception classes the two source files name, plus \<open>ValueError\<close>, which
  \<open>urllib.parse.urlsplit\<close> raises.  \<open>OtherException\<close> stands for any other class.
\<close>

datatype exn =
    NotADownloadableLinkError
  | SiteDownloaderError
  | BulkDownloaderException
  | OSError
  | ValueError
  | OtherException string

section \<open>Characters and strings (ASCII)\<close>

text \<open>
  Python strings are modelled as \<open>string\<close>.  The character classes below are the ones
  of Python's \<open>re\<close> and \<open>str\<close> on ASCII characters; code points beyond ASCII are not
  modelled.
\<close>

definition ascii_upper :: string where
  "ascii_upper = ''ABCDEFGHIJKLMNOPQRSTUVWXYZ''"

definition ascii_lower :: string where
  "ascii_lower = ''abcdefghijklmnopqrstuvwxyz''"

definition digits :: string where
  "digits = ''0123456789''"

definition lower_char :: "char \<Rightarrow> char" where
  "lower_char c = (case map_of (zip ascii_upper ascii_lower) c of Some l \<Rightarrow> l | None \<Rightarrow> c)"

text \<open>\<open>str.lower()\<close>\<close>

definition lower :: "string \<Rightarrow> string" where
  "lower s = map lower_char s"

text \<open>\<open>c.isascii() and c.isalpha()\<close>\<close>

definition is_ascii_alpha :: "char \<Rightarrow> bool" where
  "is_ascii_alpha c \<longleftrightarrow> c \<in> set (ascii_lower @ ascii_upper)"

text \<open>\<open>\w\<close>\<close>

definition is_word :: "char \<Rightarrow> bool" where
  "is_word c \<longleftrightarrow> c \<in> set (ascii_lower @ ascii_upper @ digits @ ''_'')"

text \<open>\<open>\s\<close>: tab, newline, vertical tab, form feed, carriage return, the four separators
  0x1C..0x1F and the space.\<close>

definition is_space :: "char \<Rightarrow> bool" where
  "is_space c \<longleftrightarrow>
     c \<in> set [CHR 0x09, CHR 0x0A, CHR 0x0B, CHR 0x0C, CHR 0x0D,
               CHR 0x1C, CHR 0x1D, CHR 0x1E, CHR 0x1F, CHR '' '']"

text \<open>\<open>.\<close> (without DOTALL): anything but the newline.\<close>

definition dot :: "char \<Rightarrow> bool" where
  "dot c \<longleftrightarrow> c \<noteq> CHR 0x0A"

text \<open>A literal character, and a literal character under \<open>(?i)\<close>.\<close>

definition lit :: "char \<Rightarrow> char \<Rightarrow> bool" where
  "lit a c \<longleftrightarrow> c = a"

definition lit_i :: "char \<Rightarrow> char \<Rightarrow> bool" where
  "lit_i a c \<longleftrightarrow> lower_char c = lower_char a"

section \<open>Regular expressions\<close>

text \<open>
  The patterns of \<open>download_factory.py\<close> use literals, character classes, concatenation,
  alternation, \<open>*\<close>, \<open>?\<close> and \<open>{3,4}\<close>.  For these, whether \<open>re.match\<close> succeeds is
  membership in the language of the pattern; \<open>accepts\<close> is that language, \<open>full_match\<close>
  decides it by derivatives.
\<close>

datatype regex =
    Nothing
  | Empty
  | Chars "char \<Rightarrow> bool"
  | Either regex regex
  | Then regex regex
  | Many regex

inductive accepts :: "regex \<Rightarrow> string \<Rightarrow> bool" where
  acc_Empty: "accepts Empty []"
| acc_Chars: "p c \<Longrightarrow> accepts (Chars p) [c]"
| acc_EitherL: "accepts a s \<Longrightarrow> accepts (Either a b) s"
| acc_EitherR: "accepts b s \<Longrightarrow> accepts (Either a b) s"
| acc_Then: "accepts a s \<Longrightarrow> accepts b t \<Longrightarrow> accepts (Then a b) (s @ t)"
| acc_Many0: "accepts (Many a) []"
| acc_ManyS: "accepts a s \<Longrightarrow> accepts (Many a) t \<Longrightarrow> accepts (Many a) (s @ t)"

fun nullable :: "regex \<Rightarrow> bool" where
  "nullable Nothing = False"
| "nullable Empty = True"
| "nullable (Chars p) = False"
| "nullable (Either a b) = (nullable a \<or> nullable b)"
| "nullable (Then a b) = (nullable a \<and> nullable b)"
| "nullable (Many a) = True"

fun either :: "regex \<Rightarrow> regex \<Rightarrow> regex" where
  "either Nothing b = b"
| "either a Nothing = a"
| "either a b = Either a b"

fun thn :: "regex \<Rightarrow> regex \<Rightarrow> regex" where
  "thn Nothing b = Nothing"
| "thn a Nothing = Nothing"
| "thn Empty b = b"
| "thn a b = Then a b"

fun deriv :: "char \<Rightarrow> regex \<Rightarrow> regex" where
  "deriv c Nothing = Nothing"
| "deriv c Empty = Nothing"
| "deriv c (Chars p) = (if p c then Empty else Nothing)"
| "deriv c (Either a b) = either (deriv c a) (deriv c b)"
| "deriv c (Then a b) =
     (if nullable a then either (thn (deriv c a) b) (deriv c b) else thn (deriv c a) b)"
| "deriv c (Many a) = thn (deriv c a) (Many a)"

fun full_match :: "regex \<Rightarrow> string \<Rightarrow> bool" where
  "full_match r [] = nullable r"
| "full_match r (c # cs) = full_match (deriv c r) cs"

text \<open>\<open>r?\<close>, a literal string, \<open>r{m,n}\<close>, and a sequence of patterns.\<close>

definition opt :: "regex \<Rightarrow> regex" where
  "opt r = Either r Empty"

fun seqs :: "regex list \<Rightarrow> regex" where
  "seqs [] = Empty"
| "seqs [r] = r"
| "seqs (r # rs) = Then r (seqs rs)"

definition word_i :: "string \<Rightarrow> regex" where
  "word_i s = seqs (map (\<lambda>c. Chars (lit_i c)) s)"

definition word_lit :: "string \<Rightarrow> regex" where
  "word_lit s = seqs (map (\<lambda>c. Chars (lit c)) s)"

definition repeat :: "regex \<Rightarrow> nat \<Rightarrow> nat \<Rightarrow> regex" where
  "repeat r m n = seqs (replicate m r @ replicate (n - m) (opt r))"

fun alts :: "regex list \<Rightarrow> regex" where
  "alts [] = Nothing"
| "alts [r] = r"
| "alts (r # rs) = Either r (alts rs)"

text \<open>
  \<open>re.match(p, s)\<close> for a pattern \<open>p\<close> without anchors succeeds when some prefix of \<open>s\<close>
  is in the language of \<open>p\<close>.
\<close>

definition re_match :: "regex \<Rightarrow> string \<Rightarrow> bool" where
  "re_match r s \<longleftrightarrow> full_match (Then r (Many (Chars (\<lambda>c. True)))) s"

text \<open>
  \<open>re.match(p + "$", s)\<close>: the whole of \<open>s\<close> is in the language of \<open>p\<close>, or \<open>s\<close> ends in
  a newline and the rest is (\<open>$\<close> also matches just before a final newline).
\<close>

definition re_match_end :: "regex \<Rightarrow> string \<Rightarrow> bool" where
  "re_match_end r s \<longleftrightarrow>
     full_match r s \<or> (s \<noteq> [] \<and> last s = CHR 0x0A \<and> full_match r (butlast s))"

section \<open>urllib.parse.urlsplit\<close>

text \<open>
  \<open>urlsplit\<close> of CPython 3.11, with its default arguments, on ASCII strings.  The standard
  library's validation of a bracketed host (\<open>_check_bracketed_host\<close>, which calls
  \<open>ipaddress\<close>) is the parameter \<open>bracketed_ok\<close>.
\<close>

record split_result =
  scheme :: string
  netloc :: string
  path :: string
  query :: string
  fragment :: string

definition scheme_chars :: string where
  "scheme_chars = ascii_lower @ ascii_upper @ digits @ ''+-.''"

text \<open>\<open>url.lstrip(_WHATWG_C0_CONTROL_OR_SPACE)\<close>: the characters 0x00..0x20.\<close>

definition lstrip_c0 :: "string \<Rightarrow> string" where
  "lstrip_c0 url = dropWhile (\<lambda>c. (of_char c :: nat) \<le> 32) url"

text \<open>Removal of \<open>_UNSAFE_URL_BYTES_TO_REMOVE\<close>: tab, carriage return, newline.\<close>

definition remove_unsafe :: "string \<Rightarrow> string" where
  "remove_unsafe url = filter (\<lambda>c. c \<notin> set [CHR 0x09, CHR 0x0D, CHR 0x0A]) url"

text \<open>The scheme, when the text before the first colon is a scheme; returns the scheme
  and the rest.\<close>

definition split_scheme :: "string \<Rightarrow> string \<times> string" where
  "split_scheme url =
     (let pre = takeWhile (\<lambda>c. c \<noteq> CHR '':'') url in
      if CHR '':'' \<in> set url \<and> pre \<noteq> [] \<and> is_ascii_alpha (hd url)
         \<and> list_all (\<lambda>c. c \<in> set scheme_chars) pre
      then (lower pre, drop (length pre + 1) url)
      else ('''', url))"

text \<open>\<open>_splitnetloc(url, 2)\<close>: the network location ends at the first of \<open>/ ? #\<close>.\<close>

definition splitnetloc :: "string \<Rightarrow> string \<times> string" where
  "splitnetloc url =
     (let body = drop 2 url; is_delim = (\<lambda>c. c \<in> set ''/?#'')
      in (takeWhile (\<lambda>c. \<not> is_delim c) body, dropWhile (\<lambda>c. \<not> is_delim c) body))"

text \<open>\<open>netloc.partition('[')[2].partition(']')[0]\<close>\<close>

definition bracketed_host :: "string \<Rightarrow> string" where
  "bracketed_host nl =
     takeWhile (\<lambda>c. c \<noteq> CHR '']'') (drop 1 (dropWhile (\<lambda>c. c \<noteq> CHR ''['') nl))"

definition urlsplit :: "(string \<Rightarrow> bool) \<Rightarrow> string \<Rightarrow> exn + split_result" where
  "urlsplit bracketed_ok url0 =
     (let url1 = remove_unsafe (lstrip_c0 url0);
          (sch, url2) = split_scheme url1;
          (nl, url3) = (if take 2 url2 = ''//'' then splitnetloc url2 else ('''', url2));
          has_open = CHR ''['' \<in> set nl;
          has_close = CHR '']'' \<in> set nl
      in if (has_open \<and> \<not> has_close) \<or> (has_close \<and> \<not> has_open) then Inl ValueError
         else if has_open \<and> has_close \<and> \<not> bracketed_ok (bracketed_host nl) then Inl ValueError
         else
           let url4 = takeWhile (\<lambda>c. c \<noteq> CHR ''#'') url3;
               frag = drop (length url4 + 1) url3;
               url5 = takeWhile (\<lambda>c. c \<noteq> CHR ''?'') url4;
               qry = drop (length url5 + 1) url4
           in Inr \<lparr>scheme = sch, netloc = nl, path = url5, query = qry, fragment = frag\<rparr>)"

section \<open>download_factory.py\<close>

datatype downloader_class = SelfPost

text \<open>
  \<open>re.sub(r"\s*(www\.?)?", "", s)\<close>.  At each position the pattern matches: the longest
  run of whitespace, then \<open>www\<close> when it follows, then a dot when it follows.
  \<open>beginning_match_len\<close> is the length of that match.  \<open>re.sub\<close> deletes a non-empty
  match and goes on after it; at an empty match it keeps the character and moves on by
  one.
\<close>

definition beginning_match_len :: "string \<Rightarrow> nat" where
  "beginning_match_len s =
     (let ws = takeWhile is_space s; r = dropWhile is_space s
      in length ws +
         (if take 3 r = ''www'' then (if take 1 (drop 3 r) = ''.'' then 4 else 3) else 0))"

function re_sub_beginning :: "string \<Rightarrow> string" where
  "re_sub_beginning [] = []"
| "re_sub_beginning (c # cs) =
     (let m = beginning_match_len (c # cs)
      in if m = 0 then c # re_sub_beginning cs
         else re_sub_beginning (drop m (c # cs)))"
  by pat_completeness auto
termination
  by (relation "measure length") auto

definition sanitise_url :: "(string \<Rightarrow> bool) \<Rightarrow> string \<Rightarrow> exn + string" where
  "sanitise_url bracketed_ok url =
     (case urlsplit bracketed_ok url of
        Inl e \<Rightarrow> Inl e
      | Inr split_url \<Rightarrow> Inr (re_sub_beginning (netloc split_url @ path split_url)))"

definition web_extensions :: "string list" where
  "web_extensions =
     [''asp'', ''aspx'', ''cfm'', ''cfml'', ''css'', ''htm'', ''html'', ''js'', ''php'',
      ''php3'', ''xhtml'']"

text \<open>\<open>(?i).*/.*\.(asp|aspx|...|xhtml)$\<close>\<close>

definition web_resource_pattern :: regex where
  "web_resource_pattern =
     seqs [Many (Chars dot), Chars (lit_i CHR ''/''), Many (Chars dot), Chars (lit_i CHR ''.''),
           alts (map word_i web_extensions)]"

definition is_web_resource :: "string \<Rightarrow> bool" where
  "is_web_resource url = (if re_match_end web_resource_pattern url then True else False)"

text \<open>\<open>(\?[\w;&=]*)?\<close>\<close>

definition query_allowance :: regex where
  "query_allowance =
     opt (Then (Chars (lit CHR ''?'')) (Many (Chars (\<lambda>c. is_word c \<or> c \<in> set '';&=''))))"

text \<open>\<open>.*/.*\.\w{3,4}\<close>\<close>

definition file_extension_shape :: regex where
  "file_extension_shape =
     seqs [Many (Chars dot), Chars (lit CHR ''/''), Many (Chars dot), Chars (lit CHR ''.''),
           repeat (Chars is_word) 3 4]"

text \<open>\<open>.*/.*\.\w{3,4}(\?[\w;&=]*)?$\<close>\<close>

definition file_extension_pattern :: regex where
  "file_extension_pattern = Then file_extension_shape query_allowance"

text \<open>\<open>reddit\.com/r/\<close>\<close>

definition self_post_pattern :: regex where
  "self_post_pattern = word_lit ''reddit.com/r/''"

text \<open>
  \<open>pull_lever\<close> returns what it prints on standard output and either the exception it
  raises or the class it returns.
\<close>

definition pull_lever :: "(string \<Rightarrow> bool) \<Rightarrow> string \<Rightarrow> string list \<times> (exn + downloader_class)" where
  "pull_lever bracketed_ok url =
     (case sanitise_url bracketed_ok url of
        Inl e \<Rightarrow> ([], Inl e)
      | Inr sanitised_url \<Rightarrow>
          if re_match_end file_extension_pattern sanitised_url
             \<and> \<not> is_web_resource sanitised_url
          then ([url], Inl NotADownloadableLinkError)
          else if re_match self_post_pattern sanitised_url
          then ([], Inr SelfPost)
          else ([url], Inl NotADownloadableLinkError))"

section \<open>downloader.py: data\<close>

text \<open>A path is the list of its components; \<open>Path(dirpath, file)\<close> appends one
  component and \<open>parent\<close> drops the last.\<close>

type_synonym path = "string list"
type_synonym bytes = string

definition parent :: "path \<Rightarrow> path" where
  "parent p = butlast p"

text \<open>The fields of a \<open>praw\<close> submission that \<open>_download_submission\<close> reads.
  \<open>author\<close> is the author's name, \<open>None\<close> for a deleted author; \<open>is_submission\<close> is
  \<open>isinstance(submission, praw.models.Submission)\<close>; an item of another type is taken
  to have the attributes read before that test.\<close>

record submission =
  submission_id :: string
  subreddit_display_name :: string
  author :: "string option"
  score :: int
  upvote_ratio :: real
  created_utc :: real
  url :: string
  is_submission :: bool

text \<open>The fields of \<open>Configuration\<close> (\<open>self.args\<close>) that the downloader reads.\<close>

record configuration =
  search_existing :: bool
  skip_subreddit :: "string list"
  ignore_user :: "string list"
  min_score :: "int option"
  max_score :: "int option"
  min_score_ratio :: "real option"
  max_score_ratio :: "real option"
  disable_module :: "string list"
  no_dupes :: bool
  make_hard_links :: bool

text \<open>The read-only attributes of \<open>self\<close>.\<close>

record connector =
  args :: configuration
  excluded_submission_ids :: "string list"

text \<open>A resource: its URL and what \<open>res.download(...)\<close> does, raise or fetch the
  content.\<close>

record resource =
  resource_url :: string
  download_result :: "exn + bytes"

datatype level = DEBUG | INFO | WARNING | ERROR

text \<open>One constructor for each logging call of \<open>_download_submission\<close>, with the values
  its message formats.\<close>

datatype message =
    InExclusionList string
  | InSkipList string string
  | IgnoredUser string string string
  | ScoreBelowMin string int "int option"
  | ScoreAboveMax string int "int option"
  | ScoreRatio string real
  | NotASubmission string
  | FilteredUrl string string
  | Attempting string
  | Using string string
  | DisabledModule string string
  | SiteFailed string string exn
  | AlreadyExists path string
  | FilterRemoved string string
  | FailedDownload string string string exn
  | DownloadedElsewhere string string
  | HardLinkMade path path string
  | Written path
  | ExceptionTrace exn
  | FailedWrite string path exn
  | HashAdded string
  | Downloaded string string

type_synonym log_record = "level \<times> message"

text \<open>
  What a run changes: the regular files on disk with their content, the hash index
  \<open>self.master_hash_list\<close>, the log and standard output.  Directories are not tracked.
\<close>

record world =
  files :: "path \<rightharpoonup> bytes"
  master_hash_list :: "string \<rightharpoonup> path"
  logged :: "log_record list"
  stdout :: "string list"

text \<open>
  The collaborators that are not in the two source files, as parameters:
  \<^item> \<open>md5\<close>: the digest \<open>hashlib.md5(data).hexdigest()\<close>;
  \<^item> \<open>bracketed_ok\<close>: see \<open>urlsplit\<close>;
  \<^item> \<open>is_subclass e c\<close>: the class of \<open>e\<close> is a proper subclass of \<open>c\<close>
    (\<open>bdfr/exceptions.py\<close>);
  \<^item> \<open>check_url\<close>, \<open>check_resource\<close>: the download filter;
  \<^item> \<open>construct\<close>: the exception \<open>downloader_class(submission)\<close> raises, if any;
  \<^item> \<open>find_resources\<close>: \<open>downloader.find_resources(self.authenticator)\<close>;
  \<^item> \<open>format_resource_paths\<close>: the file name formatter, for \<open>self.download_directory\<close>;
  \<^item> \<open>os_mkdir\<close>, \<open>os_open\<close>, \<open>os_utime\<close>, \<open>os_link\<close>: the exception the operating
    system call raises on that path, if any; \<open>os_utime\<close> stands for lines 189-190;
  \<^item> \<open>os_write\<close>: the exception \<open>file.write\<close> raises, if any, with the number of bytes
    that reached the file before.
\<close>

record env =
  md5 :: "bytes \<Rightarrow> string"
  bracketed_ok :: "string \<Rightarrow> bool"
  is_subclass :: "exn \<Rightarrow> exn \<Rightarrow> bool"
  check_url :: "string \<Rightarrow> bool"
  check_resource :: "resource \<Rightarrow> bool"
  construct :: "downloader_class \<Rightarrow> submission \<Rightarrow> exn option"
  find_resources :: "downloader_class \<Rightarrow> submission \<Rightarrow> exn + resource list"
  format_resource_paths :: "resource list \<Rightarrow> (path \<times> resource) list"
  os_mkdir :: "path \<Rightarrow> exn option"
  os_open :: "path \<Rightarrow> exn option"
  os_write :: "path \<Rightarrow> bytes \<Rightarrow> (exn \<times> nat) option"
  os_utime :: "path \<Rightarrow> submission \<Rightarrow> exn option"
  os_link :: "path \<Rightarrow> path \<Rightarrow> exn option"

text \<open>\<open>except c\<close> catches \<open>e\<close>.\<close>

definition isinstance :: "env \<Rightarrow> exn \<Rightarrow> exn \<Rightarrow> bool" where
  "isinstance E e c \<longleftrightarrow> e = c \<or> is_subclass E e c"

definition class_name :: "downloader_class \<Rightarrow> string" where
  "class_name c = (case c of SelfPost \<Rightarrow> ''SelfPost'')"

definition log_msg :: "level \<Rightarrow> message \<Rightarrow> world \<Rightarrow> world" where
  "log_msg l m w = w\<lparr>logged := logged w @ [(l, m)]\<rparr>"

section \<open>downloader.py: the existing-file scan\<close>

text \<open>
  A \<open>hashlib\<close> hash object is modelled by the data fed to it so far: \<open>update\<close> appends,
  and \<open>hexdigest\<close> is the digest of the concatenation.
\<close>

definition chunk_size :: nat where
  "chunk_size = 1024 * 1024"

text \<open>The \<open>while chunk:\<close> loop of \<open>_calc_hash\<close>: the hash object, the chunk just read
  and the unread rest of the file.\<close>

function calc_hash_loop :: "bytes \<Rightarrow> bytes \<Rightarrow> bytes \<Rightarrow> bytes" where
  "calc_hash_loop md5_hash chunk rest =
     (if chunk \<noteq> []
      then calc_hash_loop (md5_hash @ chunk) (take chunk_size rest) (drop chunk_size rest)
      else md5_hash)"
  by pat_completeness auto
termination
proof (relation "measure (\<lambda>(h, chunk, rest). length chunk + length rest)")
  fix md5_hash chunk rest :: bytes
  assume "chunk \<noteq> []"
  then have "0 < length chunk" by simp
  moreover have "length (take chunk_size rest) + length (drop chunk_size rest) = length rest"
    by (simp add: min_def)
  ultimately show "((md5_hash @ chunk, take chunk_size rest, drop chunk_size rest),
                    (md5_hash, chunk, rest))
                   \<in> measure (\<lambda>(h, chunk, rest). length chunk + length rest)"
    by simp
qed simp

text \<open>\<open>open\<close> raises \<open>OSError\<close> when there is no such file.\<close>

definition calc_hash :: "(bytes \<Rightarrow> string) \<Rightarrow> (path \<rightharpoonup> bytes) \<Rightarrow> path \<Rightarrow> exn + (path \<times> string)" where
  "calc_hash digest fs existing_file =
     (case fs existing_file of
        None \<Rightarrow> Inl OSError
      | Some content \<Rightarrow>
          let md5_hash = calc_hash_loop [] (take chunk_size content) (drop chunk_size content);
              file_hash = digest md5_hash
          in Inr (existing_file, file_hash))"

text \<open>\<open>pool.map(f, xs)\<close>: the results in the order of \<open>xs\<close>, or an exception of one
  call.\<close>

fun pool_map :: "('a \<Rightarrow> exn + 'b) \<Rightarrow> 'a list \<Rightarrow> exn + 'b list" where
  "pool_map f [] = Inr []"
| "pool_map f (x # xs) =
     (case f x of
        Inl e \<Rightarrow> Inl e
      | Inr y \<Rightarrow> (case pool_map f xs of Inl e \<Rightarrow> Inl e | Inr ys \<Rightarrow> Inr (y # ys)))"

text \<open>The files under the directory, from the triples \<open>os.walk\<close> yields.\<close>

definition walk_files :: "(path \<times> string list \<times> string list) list \<Rightarrow> path list" where
  "walk_files walk =
     concat (map (\<lambda>(dirpath, dirnames, filenames). map (\<lambda>file. dirpath @ [file]) filenames)
               walk)"

text \<open>\<open>{res[1]: res[0] for res in results}\<close>\<close>

definition dict_of_results :: "(path \<times> string) list \<Rightarrow> (string \<rightharpoonup> path)" where
  "dict_of_results results = foldl (\<lambda>d res. d(snd res \<mapsto> fst res)) Map.empty results"

text \<open>\<open>scan_existing_files\<close>, without its log line.  \<open>walk\<close> is what \<open>os.walk\<close> yields
  for the directory, \<open>fs\<close> the files on disk.\<close>

definition scan_existing_files ::
  "(bytes \<Rightarrow> string) \<Rightarrow> (path \<rightharpoonup> bytes) \<Rightarrow> (path \<times> string list \<times> string list) list
     \<Rightarrow> exn + (string \<rightharpoonup> path)" where
  "scan_existing_files digest fs walk =
     (let files = walk_files walk
      in case pool_map (calc_hash digest fs) files of
           Inl e \<Rightarrow> Inl e
         | Inr results \<Rightarrow> Inr (dict_of_results results))"

text \<open>\<open>RedditDownloader.__init__\<close> after \<open>super().__init__\<close>, which has left the world
  \<open>w\<close>: with \<open>search_existing\<close> the index is the one of the scan.\<close>

definition init :: "env \<Rightarrow> configuration \<Rightarrow> (path \<times> string list \<times> string list) list \<Rightarrow> world
                      \<Rightarrow> exn + world" where
  "init E a walk w =
     (if search_existing a
      then (case scan_existing_files (md5 E) (files w) walk of
              Inl e \<Rightarrow> Inl e
            | Inr hash_list \<Rightarrow> Inr (w\<lparr>master_hash_list := hash_list\<rparr>))
      else Inr w)"

section \<open>downloader.py: the submission filter\<close>

text \<open>\<open>threshold and value < threshold\<close> and \<open>threshold and threshold < value\<close>\<close>

definition below :: "'a::{zero,ord} option \<Rightarrow> 'a \<Rightarrow> bool" where
  "below threshold v = (case threshold of None \<Rightarrow> False | Some m \<Rightarrow> m \<noteq> 0 \<and> v < m)"

definition above :: "'a::{zero,ord} option \<Rightarrow> 'a \<Rightarrow> bool" where
  "above threshold v = (case threshold of None \<Rightarrow> False | Some m \<Rightarrow> m \<noteq> 0 \<and> m < v)"

definition author_or_deleted :: "submission \<Rightarrow> string" where
  "author_or_deleted submission = (case author submission of Some name \<Rightarrow> name | None \<Rightarrow> ''DELETED'')"

text \<open>The \<open>if\<close>/\<open>elif\<close> chain at the head of \<open>_download_submission\<close>: the record the
  branch taken logs before it returns, \<open>None\<close> when no branch is taken.\<close>

definition filter_rejection :: "env \<Rightarrow> connector \<Rightarrow> submission \<Rightarrow> log_record option" where
  "filter_rejection E self submission =
     (if submission_id submission \<in> set (excluded_submission_ids self)
      then Some (DEBUG, InExclusionList (submission_id submission))
      else if lower (subreddit_display_name submission) \<in> set (skip_subreddit (args self))
      then Some (DEBUG, InSkipList (submission_id submission) (subreddit_display_name submission))
      else if (case author submission of
                 Some name \<Rightarrow> name \<in> set (ignore_user (args self))
               | None \<Rightarrow> ''DELETED'' \<in> set (ignore_user (args self)))
      then Some (DEBUG, IgnoredUser (submission_id submission) (subreddit_display_name submission)
                          (author_or_deleted submission))
      else if below (min_score (args self)) (score submission)
      then Some (DEBUG, ScoreBelowMin (submission_id submission) (score submission)
                          (min_score (args self)))
      else if above (max_score (args self)) (score submission)
      then Some (DEBUG, ScoreAboveMax (submission_id submission) (score submission)
                          (max_score (args self)))
      else if below (min_score_ratio (args self)) (upvote_ratio submission)
              \<or> above (max_score_ratio (args self)) (upvote_ratio submission)
      then Some (DEBUG, ScoreRatio (submission_id submission) (upvote_ratio submission))
      else if \<not> is_submission submission
      then Some (WARNING, NotASubmission (submission_id submission))
      else if \<not> check_url E (url submission)
      then Some (DEBUG, FilteredUrl (submission_id submission) (url submission))
      else None)"

section \<open>downloader.py: the resource loop\<close>

text \<open>How a loop body ends: it goes on to the next iteration, returns from
  \<open>_download_submission\<close>, or raises.\<close>

datatype flow = Continue | Return | Raise exn

text \<open>The handler \<open>except OSError as e\<close> around \<open>open\<close> and \<open>write\<close>.\<close>

definition except_OSError :: "env \<Rightarrow> submission \<Rightarrow> path \<Rightarrow> exn \<Rightarrow> world \<Rightarrow> flow \<times> world" where
  "except_OSError E submission destination e w =
     (if isinstance E e OSError
      then (Return, log_msg ERROR (FailedWrite (submission_id submission) destination e)
                      (log_msg ERROR (ExceptionTrace e) w))
      else (Raise e, w))"

text \<open>Lines 181-192: \<open>open\<close> creates the file empty, \<open>write\<close> fills it; a failed \<open>write\<close>
  leaves the bytes that reached the file.\<close>

definition write_resource ::
  "env \<Rightarrow> submission \<Rightarrow> path \<Rightarrow> bytes \<Rightarrow> string \<Rightarrow> world \<Rightarrow> flow \<times> world" where
  "write_resource E submission destination content resource_hash w =
     (case os_open E destination of
        Some e \<Rightarrow> except_OSError E submission destination e w
      | None \<Rightarrow>
          (case os_write E destination content of
             Some (e, n) \<Rightarrow>
               except_OSError E submission destination e
                 (w\<lparr>files := (files w)(destination \<mapsto> take n content)\<rparr>)
           | None \<Rightarrow>
               let w1 = log_msg DEBUG (Written destination)
                          (w\<lparr>files := (files w)(destination \<mapsto> content)\<rparr>)
               in (case os_utime E destination submission of
                     Some e \<Rightarrow> (Raise e, w1)
                   | None \<Rightarrow>
                       (Continue,
                        log_msg DEBUG (HashAdded resource_hash)
                          (w1\<lparr>master_hash_list :=
                                 (master_hash_list w1)(resource_hash \<mapsto> destination)\<rparr>)))))"

text \<open>Lines 175-180: \<open>link_to\<close> raises when the operating system refuses or the indexed
  file is not there.\<close>

definition link_resource ::
  "env \<Rightarrow> submission \<Rightarrow> path \<Rightarrow> path \<Rightarrow> world \<Rightarrow> flow \<times> world" where
  "link_resource E submission destination existing w =
     (case os_link E existing destination of
        Some e \<Rightarrow> (Raise e, w)
      | None \<Rightarrow>
          (case files w existing of
             None \<Rightarrow> (Raise OSError, w)
           | Some c \<Rightarrow>
               (Return, log_msg INFO (HardLinkMade destination existing (submission_id submission))
                          (w\<lparr>files := (files w)(destination \<mapsto> c)\<rparr>))))"

text \<open>The body of the \<open>for destination, res in ...\<close> loop, lines 154-192.\<close>

definition loop_body ::
  "env \<Rightarrow> connector \<Rightarrow> submission \<Rightarrow> downloader_class \<Rightarrow> path \<Rightarrow> resource \<Rightarrow> world
     \<Rightarrow> flow \<times> world" where
  "loop_body E self submission downloader_class destination res w =
     (if files w destination \<noteq> None
      then (Continue, log_msg DEBUG (AlreadyExists destination (submission_id submission)) w)
      else if \<not> check_resource E res
      then (Continue, log_msg DEBUG (FilterRemoved (submission_id submission) (url submission)) w)
      else
        (case download_result res of
           Inl e \<Rightarrow>
             (if isinstance E e BulkDownloaderException
              then (Return, log_msg ERROR (FailedDownload (resource_url res) (submission_id submission)
                                             (class_name downloader_class) e) w)
              else (Raise e, w))
         | Inr content \<Rightarrow>
             (let resource_hash = md5 E content
              in (case os_mkdir E (parent destination) of
                    Some e \<Rightarrow> (Raise e, w)
                  | None \<Rightarrow>
                      (case master_hash_list w resource_hash of
                         Some existing \<Rightarrow>
                           (if no_dupes (args self)
                            then (Return, log_msg INFO (DownloadedElsewhere resource_hash
                                                          (submission_id submission)) w)
                            else if make_hard_links (args self)
                            then link_resource E submission destination existing w
                            else write_resource E submission destination content resource_hash w)
                       | None \<Rightarrow>
                           write_resource E submission destination content resource_hash w)))))"

fun for_resources ::
  "env \<Rightarrow> connector \<Rightarrow> submission \<Rightarrow> downloader_class \<Rightarrow> (path \<times> resource) list \<Rightarrow> world
     \<Rightarrow> flow \<times> world" where
  "for_resources E self submission downloader_class [] w = (Continue, w)"
| "for_resources E self submission downloader_class ((destination, res) # rest) w =
     (case loop_body E self submission downloader_class destination res w of
        (Continue, w') \<Rightarrow> for_resources E self submission downloader_class rest w'
      | (Return, w') \<Rightarrow> (Return, w')
      | (Raise e, w') \<Rightarrow> (Raise e, w'))"

section \<open>downloader.py: one submission, and the run\<close>

text \<open>The handler \<open>except errors.NotADownloadableLinkError\<close> of lines 142-144.\<close>

definition except_NotADownloadable :: "env \<Rightarrow> exn \<Rightarrow> world \<Rightarrow> exn option \<times> world" where
  "except_NotADownloadable E e w =
     (if isinstance E e NotADownloadableLinkError then (None, w) else (Some e, w))"

text \<open>\<open>_download_submission\<close>: the exception that leaves it, if any, and the world after.\<close>

definition download_submission ::
  "env \<Rightarrow> connector \<Rightarrow> submission \<Rightarrow> world \<Rightarrow> exn option \<times> world" where
  "download_submission E self submission w =
     (case filter_rejection E self submission of
        Some r \<Rightarrow> (None, w\<lparr>logged := logged w @ [r]\<rparr>)
      | None \<Rightarrow>
          let w1 = log_msg DEBUG (Attempting (submission_id submission)) w;
              (printed, lever) = pull_lever (bracketed_ok E) (url submission);
              w2 = w1\<lparr>stdout := stdout w1 @ printed\<rparr>
          in (case lever of
                Inl e \<Rightarrow> except_NotADownloadable E e w2
              | Inr downloader_class \<Rightarrow>
                  (case construct E downloader_class submission of
                     Some e \<Rightarrow> except_NotADownloadable E e w2
                   | None \<Rightarrow>
                       (let w3 = log_msg DEBUG (Using (class_name downloader_class) (url submission)) w2
                        in if lower (class_name downloader_class) \<in> set (disable_module (args self))
                           then (None, log_msg DEBUG (DisabledModule (submission_id submission)
                                                        (class_name downloader_class)) w3)
                           else
                             (case find_resources E downloader_class submission of
                                Inl e \<Rightarrow>
                                  (if isinstance E e SiteDownloaderError
                                   then (None, log_msg ERROR (SiteFailed (class_name downloader_class)
                                                                (submission_id submission) e) w3)
                                   else (Some e, w3))
                              | Inr content \<Rightarrow>
                                  (case for_resources E self submission downloader_class
                                          (format_resource_paths E content) w3 of
                                     (Continue, w4) \<Rightarrow>
                                       (None, log_msg INFO (Downloaded (submission_id submission)
                                                              (subreddit_display_name submission)) w4)
                                   | (Return, w4) \<Rightarrow> (None, w4)
                                   | (Raise e, w4) \<Rightarrow> (Some e, w4)))))))"

text \<open>\<open>download\<close>: the two nested loops; an exception that leaves
  \<open>_download_submission\<close> leaves both.\<close>

fun for_submissions :: "env \<Rightarrow> connector \<Rightarrow> submission list \<Rightarrow> world \<Rightarrow> exn option \<times> world" where
  "for_submissions E self [] w = (None, w)"
| "for_submissions E self (submission # rest) w =
     (case download_submission E self submission w of
        (None, w') \<Rightarrow> for_submissions E self rest w'
      | (Some e, w') \<Rightarrow> (Some e, w'))"

fun download :: "env \<Rightarrow> connector \<Rightarrow> submission list list \<Rightarrow> world \<Rightarrow> exn option \<times> world" where
  "download E self [] w = (None, w)"
| "download E self (generator # reddit_lists) w =
     (case for_submissions E self generator w of
        (None, w') \<Rightarrow> download E self reddit_lists w'
      | (Some e, w') \<Rightarrow> (Some e, w'))"

section \<open>Definitions used to state the properties\<close>

text \<open>A URL with its query string and fragment removed: the text before the first
  \<open>?\<close> or \<open>#\<close>.\<close>

definition nqf :: "char \<Rightarrow> bool" where
  "nqf c \<longleftrightarrow> c \<noteq> CHR ''?'' \<and> c \<noteq> CHR ''#''"

definition without_query_fragment :: "string \<Rightarrow> string" where
  "without_query_fragment u = takeWhile nqf u"

text \<open>A validation of bracketed hosts for the examples, none of which has one.\<close>

definition any_host :: "string \<Rightarrow> bool" where
  "any_host h = True"

text \<open>The content hash of the file at a path, when there is one.\<close>

definition file_hash :: "(bytes \<Rightarrow> string) \<Rightarrow> (path \<rightharpoonup> bytes) \<Rightarrow> path \<Rightarrow> string option" where
  "file_hash digest fs p = map_option digest (fs p)"

text \<open>A digest for the examples: the content itself.\<close>

definition example_digest :: "bytes \<Rightarrow> string" where
  "example_digest b = b"

text \<open>A directory \<open>out\<close> with three files; the first and the last hold the same bytes.\<close>

definition example_walk :: "(path \<times> string list \<times> string list) list" where
  "example_walk = [([''out''], [], [''a'', ''b'', ''c''])]"

definition example_disk :: "path \<rightharpoonup> bytes" where
  "example_disk =
     [[''out'', ''a''] \<mapsto> ''xx'', [''out'', ''b''] \<mapsto> ''yy'', [''out'', ''c''] \<mapsto> ''xx'']"

text \<open>
  The checks of the filter pipeline in the order of the specification, each with the
  record logged on rejection, and the record of the first check that rejects.
\<close>

definition filter_checks ::
  "env \<Rightarrow> connector \<Rightarrow> ((submission \<Rightarrow> bool) \<times> (submission \<Rightarrow> log_record)) list" where
  "filter_checks E self =
     [(\<lambda>s. submission_id s \<in> set (excluded_submission_ids self),
       \<lambda>s. (DEBUG, InExclusionList (submission_id s))),
      (\<lambda>s. lower (subreddit_display_name s) \<in> set (skip_subreddit (args self)),
       \<lambda>s. (DEBUG, InSkipList (submission_id s) (subreddit_display_name s))),
      (\<lambda>s. author_or_deleted s \<in> set (ignore_user (args self)),
       \<lambda>s. (DEBUG, IgnoredUser (submission_id s) (subreddit_display_name s) (author_or_deleted s))),
      (\<lambda>s. below (min_score (args self)) (score s),
       \<lambda>s. (DEBUG, ScoreBelowMin (submission_id s) (score s) (min_score (args self)))),
      (\<lambda>s. above (max_score (args self)) (score s),
       \<lambda>s. (DEBUG, ScoreAboveMax (submission_id s) (score s) (max_score (args self)))),
      (\<lambda>s. below (min_score_ratio (args self)) (upvote_ratio s)
            \<or> above (max_score_ratio (args self)) (upvote_ratio s),
       \<lambda>s. (DEBUG, ScoreRatio (submission_id s) (upvote_ratio s))),
      (\<lambda>s. \<not> is_submission s,
       \<lambda>s. (WARNING, NotASubmission (submission_id s))),
      (\<lambda>s. \<not> check_url E (url s),
       \<lambda>s. (DEBUG, FilteredUrl (submission_id s) (url s)))]"

definition first_rejection ::
  "((submission \<Rightarrow> bool) \<times> (submission \<Rightarrow> log_record)) list \<Rightarrow> submission \<Rightarrow> log_record option" where
  "first_rejection checks s =
     (case find (\<lambda>c. fst c s) checks of None \<Rightarrow> None | Some c \<Rightarrow> Some (snd c s))"

text \<open>
  The exceptions raised while a submission is processed are the ones its handlers
  catch: dispatch and construction raise only instances of \<open>NotADownloadableLinkError\<close>,
  extraction only of \<open>SiteDownloaderError\<close>, a fetch only of \<open>BulkDownloaderException\<close>,
  \<open>open\<close> and \<open>write\<close> only of \<open>OSError\<close>; directory creation, hard-link creation and
  timestamp stamping raise nothing.
\<close>

definition resource_handled :: "env \<Rightarrow> submission \<Rightarrow> path \<Rightarrow> resource \<Rightarrow> bool" where
  "resource_handled E s destination res \<longleftrightarrow>
     (\<forall>e. download_result res = Inl e \<longrightarrow> isinstance E e BulkDownloaderException)
     \<and> os_mkdir E (parent destination) = None
     \<and> (\<forall>e. os_open E destination = Some e \<longrightarrow> isinstance E e OSError)
     \<and> (\<forall>b e n. os_write E destination b = Some (e, n) \<longrightarrow> isinstance E e OSError)
     \<and> os_utime E destination s = None
     \<and> (\<forall>existing. os_link E existing destination = None)"

definition handled_only :: "env \<Rightarrow> submission \<Rightarrow> bool" where
  "handled_only E s \<longleftrightarrow>
     (\<forall>e. snd (pull_lever (bracketed_ok E) (url s)) = Inl e
          \<longrightarrow> isinstance E e NotADownloadableLinkError)
     \<and> (\<forall>c e. construct E c s = Some e \<longrightarrow> isinstance E e NotADownloadableLinkError)
     \<and> (\<forall>c e. find_resources E c s = Inl e \<longrightarrow> isinstance E e SiteDownloaderError)
     \<and> (\<forall>c content destination res.
           find_resources E c s = Inr content
           \<and> (destination, res) \<in> set (format_resource_paths E content) \<longrightarrow>
             resource_handled E s destination res)"

text \<open>
  How the hash index and the disk may change between two moments of a run: files stay
  as they are, index entries are not removed, an entry that is new or changed points to
  a file on disk with that content hash, and under the no-duplicates or the hard-link
  policy an entry is not changed.
\<close>

definition index_grows :: "env \<Rightarrow> connector \<Rightarrow> world \<Rightarrow> world \<Rightarrow> bool" where
  "index_grows E self w w' \<longleftrightarrow>
     files w \<subseteq>\<^sub>m files w'
     \<and> dom (master_hash_list w) \<subseteq> dom (master_hash_list w')
     \<and> (\<forall>h p. master_hash_list w' h = Some p \<longrightarrow>
            master_hash_list w h = Some p \<or> (\<exists>c. files w' p = Some c \<and> md5 E c = h))
     \<and> (no_dupes (args self) \<or> make_hard_links (args self) \<longrightarrow>
            (\<forall>h \<in> dom (master_hash_list w). master_hash_list w' h = master_hash_list w h))"

text \<open>Every indexed path is a file on disk.\<close>

definition index_on_disk :: "world \<Rightarrow> bool" where
  "index_on_disk w \<longleftrightarrow> ran (master_hash_list w) \<subseteq> dom (files w)"

text \<open>
  Instances for the examples.  The subclass relation is the one of the upstream
  \<open>bdfr/exceptions.py\<close>; the file name formatter puts a resource under \<open>out\<close>, named by
  its URL; no operating system call fails.
\<close>

definition example_subclass :: "exn \<Rightarrow> exn \<Rightarrow> bool" where
  "example_subclass e c \<longleftrightarrow>
     (e, c) \<in> set [(NotADownloadableLinkError, SiteDownloaderError),
                  (NotADownloadableLinkError, BulkDownloaderException),
                  (SiteDownloaderError, BulkDownloaderException)]"

definition resource_one :: resource where
  "resource_one = \<lparr>resource_url = ''one'', download_result = Inr ''xx''\<rparr>"

definition resource_two :: resource where
  "resource_two = \<lparr>resource_url = ''two'', download_result = Inr ''yy''\<rparr>"

definition example_env :: env where
  "example_env =
     \<lparr>md5 = example_digest,
      bracketed_ok = any_host,
      is_subclass = example_subclass,
      check_url = (\<lambda>u. True),
      check_resource = (\<lambda>r. True),
      construct = (\<lambda>c s. None),
      find_resources = (\<lambda>c s. Inr [resource_one, resource_two]),
      format_resource_paths = map (\<lambda>r. ([''out'', resource_url r], r)),
      os_mkdir = (\<lambda>p. None),
      os_open = (\<lambda>p. None),
      os_write = (\<lambda>p b. None),
      os_utime = (\<lambda>p s. None),
      os_link = (\<lambda>p q. None)\<rparr>"

definition example_args :: configuration where
  "example_args =
     \<lparr>search_existing = False, skip_subreddit = [], ignore_user = [], min_score = Some 10,
      max_score = None, min_score_ratio = None, max_score_ratio = None, disable_module = [],
      no_dupes = False, make_hard_links = False\<rparr>"

definition example_connector :: connector where
  "example_connector = \<lparr>args = example_args, excluded_submission_ids = []\<rparr>"

definition example_submission :: submission where
  "example_submission =
     \<lparr>submission_id = ''abc123'', subreddit_display_name = ''test'', author = Some ''alice'',
      score = 50, upvote_ratio = 1, created_utc = 0, url = ''http://reddit.com/r/test/abc123'',
      is_submission = True\<rparr>"

definition second_submission :: submission where
  "second_submission =
     example_submission\<lparr>submission_id := ''def456'', url := ''http://reddit.com/r/test/def456''\<rparr>"

definition example_world :: world where
  "example_world = \<lparr>files = Map.empty, master_hash_list = Map.empty, logged = [], stdout = []\<rparr>"

text \<open>Variations of the example: timestamp stamping fails; \<open>open\<close> fails for the first
  resource; the fetch of the first resource fails; the no-duplicates policy is active; a
  disk and index that already hold the bytes of the first resource; a submission with
  score 5.\<close>

definition utime_fails_env :: env where
  "utime_fails_env = example_env\<lparr>os_utime := (\<lambda>p s. Some OSError)\<rparr>"

definition open_fails_env :: env where
  "open_fails_env =
     example_env\<lparr>os_open := (\<lambda>p. if p = [''out'', ''one''] then Some OSError else None)\<rparr>"

definition fetch_fails_env :: env where
  "fetch_fails_env =
     example_env\<lparr>find_resources :=
       (\<lambda>c s. Inr [resource_one\<lparr>download_result := Inl BulkDownloaderException\<rparr>, resource_two])\<rparr>"

definition no_dupes_connector :: connector where
  "no_dupes_connector = example_connector\<lparr>args := example_args\<lparr>no_dupes := True\<rparr>\<rparr>"

definition indexed_world :: world where
  "indexed_world =
     \<lparr>files = [[''out'', ''a''] \<mapsto> ''xx''], master_hash_list = [''xx'' \<mapsto> [''out'', ''a'']],
      logged = [], stdout = []\<rparr>"

definition low_score_submission :: submission where
  "low_score_submission = example_submission\<lparr>score := 5\<rparr>"

section \<open>The regular-expression matcher decides the language\<close>

inductive_simps accepts_Nothing [simp]: "accepts Nothing s"
inductive_simps accepts_Empty [simp]: "accepts Empty s"
inductive_simps accepts_Chars [simp]: "accepts (Chars p) s"
inductive_simps accepts_Either [simp]: "accepts (Either a b) s"
inductive_simps accepts_Then: "accepts (Then a b) s"

lemma nullable_iff: "nullable r \<longleftrightarrow> accepts r []"
  by (induction r) (auto simp: accepts_Then intro: accepts.intros)

lemma accepts_either [simp]: "accepts (either a b) s \<longleftrightarrow> accepts a s \<or> accepts b s"
  by (induction a b rule: either.induct) auto

lemma accepts_thn [simp]: "accepts (thn a b) s \<longleftrightarrow> accepts (Then a b) s"
  by (induction a b rule: thn.induct) (auto simp: accepts_Then)

lemma accepts_Many_Cons_D:
  assumes "accepts r w" "r = Many a" "w = c # s"
  shows "\<exists>u v. s = u @ v \<and> accepts a (c # u) \<and> accepts (Many a) v"
  using assms
proof (induction arbitrary: s rule: accepts.induct)
  case (acc_ManyS a' s1 t)
  show ?case
  proof (cases s1)
    case Nil
    with acc_ManyS show ?thesis by simp
  next
    case (Cons x u)
    with acc_ManyS have "s = u @ t" "accepts a (c # u)" "accepts (Many a) t" by auto
    then show ?thesis by blast
  qed
qed auto

lemma accepts_Many_Cons:
  "accepts (Many a) (c # s) \<longleftrightarrow> (\<exists>u v. s = u @ v \<and> accepts a (c # u) \<and> accepts (Many a) v)"
proof
  assume "accepts (Many a) (c # s)"
  then show "\<exists>u v. s = u @ v \<and> accepts a (c # u) \<and> accepts (Many a) v"
    by (rule accepts_Many_Cons_D) simp_all
next
  assume "\<exists>u v. s = u @ v \<and> accepts a (c # u) \<and> accepts (Many a) v"
  then obtain u v where "s = u @ v" "accepts a (c # u)" "accepts (Many a) v" by blast
  then show "accepts (Many a) (c # s)"
    using acc_ManyS [of a "c # u" v] by simp
qed

lemma accepts_Then_Cons:
  "accepts (Then a b) (c # s) \<longleftrightarrow>
     (accepts a [] \<and> accepts b (c # s)) \<or> (\<exists>u v. s = u @ v \<and> accepts a (c # u) \<and> accepts b v)"
  by (auto simp: accepts_Then Cons_eq_append_conv)

lemma accepts_deriv: "accepts (deriv c r) s \<longleftrightarrow> accepts r (c # s)"
proof (induction r arbitrary: s)
  case (Then a b)
  have "accepts (Then (deriv c a) b) s \<longleftrightarrow> (\<exists>u v. s = u @ v \<and> accepts a (c # u) \<and> accepts b v)"
    by (simp add: accepts_Then Then.IH)
  then show ?case
    by (simp add: accepts_Then_Cons nullable_iff Then.IH) blast
next
  case (Many a)
  have "accepts (Then (deriv c a) (Many a)) s \<longleftrightarrow>
          (\<exists>u v. s = u @ v \<and> accepts a (c # u) \<and> accepts (Many a) v)"
    by (simp add: accepts_Then Many.IH)
  then show ?case
    by (simp add: accepts_Many_Cons)
qed auto

lemma full_match_iff: "full_match r s \<longleftrightarrow> accepts r s"
  by (induction s arbitrary: r) (simp_all add: nullable_iff accepts_deriv)

lemma accepts_Many_any: "accepts (Many (Chars (\<lambda>c. True))) t"
proof (induction t)
  case Nil show ?case by (rule acc_Many0)
next
  case (Cons c t)
  have "accepts (Chars (\<lambda>c. True)) [c]" by simp
  from acc_ManyS [OF this Cons] show ?case by simp
qed

lemma re_match_iff: "re_match r s \<longleftrightarrow> (\<exists>p t. s = p @ t \<and> accepts r p)"
  by (auto simp: re_match_def full_match_iff accepts_Then accepts_Many_any)

lemma accepts_seqs_Cons: "accepts (seqs (r # rs)) s \<longleftrightarrow> accepts (Then r (seqs rs)) s"
  by (cases rs) (auto simp: accepts_Then)

lemma accepts_word_lit: "accepts (word_lit w) p \<longleftrightarrow> p = w"
proof (induction w arbitrary: p)
  case Nil
  show ?case by (simp add: word_lit_def)
next
  case (Cons c w)
  have "accepts (word_lit (c # w)) p \<longleftrightarrow> accepts (Then (Chars (lit c)) (word_lit w)) p"
    unfolding word_lit_def by (simp add: accepts_seqs_Cons del: seqs.simps)
  also have "\<dots> \<longleftrightarrow> p = c # w"
    by (auto simp: accepts_Then Cons.IH lit_def)
  finally show ?case .
qed

lemma re_match_self_post: "re_match self_post_pattern s \<longleftrightarrow> take 13 s = ''reddit.com/r/''"
proof -
  have "re_match self_post_pattern s \<longleftrightarrow> (\<exists>t. s = ''reddit.com/r/'' @ t)"
    by (simp add: re_match_iff self_post_pattern_def accepts_word_lit)
  also have "\<dots> \<longleftrightarrow> take 13 s = ''reddit.com/r/''"
  proof
    assume "\<exists>t. s = ''reddit.com/r/'' @ t"
    then show "take 13 s = ''reddit.com/r/''" by auto
  next
    assume a: "take 13 s = ''reddit.com/r/''"
    have "s = take 13 s @ drop 13 s" by simp
    with a show "\<exists>t. s = ''reddit.com/r/'' @ t" by metis
  qed
  finally show ?thesis .
qed

lemma accepts_query_allowance:
  "accepts query_allowance t \<Longrightarrow> t = [] \<or> CHR ''?'' \<in> set t"
  by (auto simp: query_allowance_def opt_def accepts_Then lit_def)

lemma accepts_file_extension_pattern:
  assumes "CHR ''?'' \<notin> set s"
  shows "accepts file_extension_pattern s \<longleftrightarrow> accepts file_extension_shape s"
proof
  assume "accepts file_extension_pattern s"
  then obtain a t where s: "s = a @ t" and a: "accepts file_extension_shape a"
    and t: "accepts query_allowance t"
    by (auto simp: file_extension_pattern_def accepts_Then)
  from accepts_query_allowance [OF t] assms s have "t = []" by auto
  with s a show "accepts file_extension_shape s" by simp
next
  assume "accepts file_extension_shape s"
  moreover have "accepts query_allowance []"
    by (simp add: query_allowance_def opt_def)
  ultimately have "accepts (Then file_extension_shape query_allowance) (s @ [])"
    by (rule acc_Then)
  then show "accepts file_extension_pattern s"
    by (simp add: file_extension_pattern_def)
qed

lemma re_match_end_file_extension:
  assumes "CHR ''?'' \<notin> set s"
  shows "re_match_end file_extension_pattern s = re_match_end file_extension_shape s"
proof -
  have "CHR ''?'' \<notin> set (butlast s)" using assms by (auto dest: in_set_butlastD)
  then show ?thesis
    unfolding re_match_end_def full_match_iff
    by (simp add: accepts_file_extension_pattern assms)
qed

lemma set_re_sub_beginning: "set (re_sub_beginning s) \<subseteq> set s"
proof (induction s rule: re_sub_beginning.induct)
  case 1 show ?case by simp
next
  case (2 c cs)
  show ?case
  proof (cases "beginning_match_len (c # cs) = 0")
    case True
    with 2 show ?thesis by auto
  next
    case False
    with 2 have "set (re_sub_beginning (c # cs)) \<subseteq> set (drop (beginning_match_len (c # cs)) (c # cs))"
      by (simp add: Let_def)
    also have "\<dots> \<subseteq> set (c # cs)" by (rule set_drop_subset)
    finally show ?thesis .
  qed
qed

lemma urlsplit_no_query_char:
  assumes "urlsplit chk u = Inr r"
  shows "CHR ''?'' \<notin> set (netloc r @ path r)"
proof -
  define url1 where "url1 = remove_unsafe (lstrip_c0 u)"
  obtain sch url2 where s: "split_scheme url1 = (sch, url2)" by fastforce
  obtain nl url3 where
    n: "(if take 2 url2 = ''//'' then splitnetloc url2 else ([], url2)) = (nl, url3)"
    by fastforce
  have "nl = [] \<or> nl = fst (splitnetloc url2)"
    using n by (auto split: if_splits)
  moreover have "CHR ''?'' \<notin> set (fst (splitnetloc url2))"
    by (auto simp: splitnetloc_def Let_def dest: set_takeWhileD)
  ultimately have nl: "CHR ''?'' \<notin> set nl" by auto
  have p: "CHR ''?'' \<notin> set (takeWhile (\<lambda>c. c \<noteq> CHR ''?'') x)" for x
    by (auto dest: set_takeWhileD)
  from assms have "netloc r = nl \<and> path r = takeWhile (\<lambda>c. c \<noteq> CHR ''?'') (takeWhile (\<lambda>c. c \<noteq> CHR ''#'') url3)"
    unfolding urlsplit_def url1_def [symmetric]
    by (auto simp: s n Let_def split: if_splits)
  with nl p show ?thesis by simp
qed

lemma sanitise_url_no_query_char:
  assumes "sanitise_url chk u = Inr s"
  shows "CHR ''?'' \<notin> set s"
proof -
  from assms obtain r where r: "urlsplit chk u = Inr r" and s: "s = re_sub_beginning (netloc r @ path r)"
    by (auto simp: sanitise_url_def split: sum.splits)
  from set_re_sub_beginning [of "netloc r @ path r"] urlsplit_no_query_char [OF r] s
  show ?thesis by auto
qed

section \<open>Query string and fragment do not reach the dispatch\<close>

lemma dropWhile_takeWhile_commute:
  "(\<And>c. Q c \<Longrightarrow> P c) \<Longrightarrow> dropWhile Q (takeWhile P xs) = takeWhile P (dropWhile Q xs)"
  by (induction xs) auto

lemma filter_takeWhile_commute:
  "(\<And>c. \<not> R c \<Longrightarrow> P c) \<Longrightarrow> filter R (takeWhile P xs) = takeWhile P (filter R xs)"
  by (induction xs) auto

lemma takeWhile_takeWhile_weaker:
  "(\<And>c. A c \<Longrightarrow> B c) \<Longrightarrow> takeWhile A (takeWhile B xs) = takeWhile A xs"
  by (induction xs) auto

lemma takeWhile_takeWhile_conj:
  "takeWhile A (takeWhile B xs) = takeWhile (\<lambda>c. A c \<and> B c) xs"
  by (induction xs) auto

lemma lstrip_c0_nqf: "lstrip_c0 (takeWhile nqf u) = takeWhile nqf (lstrip_c0 u)"
  unfolding lstrip_c0_def
  by (rule dropWhile_takeWhile_commute) (auto simp: nqf_def)

lemma remove_unsafe_nqf: "remove_unsafe (takeWhile nqf u) = takeWhile nqf (remove_unsafe u)"
  unfolding remove_unsafe_def
  by (rule filter_takeWhile_commute) (auto simp: nqf_def)

lemma scheme_chars_nqf: "c \<in> set scheme_chars \<Longrightarrow> nqf c"
  by (auto simp: scheme_chars_def nqf_def ascii_lower_def ascii_upper_def digits_def)

lemma split_scheme_nqf:
  "split_scheme (takeWhile nqf u) = (fst (split_scheme u), takeWhile nqf (snd (split_scheme u)))"
proof (cases "list_all nqf (takeWhile (\<lambda>c. c \<noteq> CHR '':'') u)")
  case True
  define pre where "pre = takeWhile (\<lambda>c. c \<noteq> CHR '':'') u"
  show ?thesis
  proof (cases "CHR '':'' \<in> set u")
    case False
    then have "CHR '':'' \<notin> set (takeWhile nqf u)"
      by (meson set_takeWhileD)
    with False show ?thesis by (simp add: split_scheme_def Let_def)
  next
    case c: True
    have ne: "dropWhile (\<lambda>c. c \<noteq> CHR '':'') u \<noteq> []"
      using c by (simp add: dropWhile_eq_Nil_conv)
    from hd_dropWhile [OF ne] have "hd (dropWhile (\<lambda>c. c \<noteq> CHR '':'') u) = CHR '':''"
      by simp
    with ne obtain r where dr: "dropWhile (\<lambda>c. c \<noteq> CHR '':'') u = CHR '':'' # r"
      by (cases "dropWhile (\<lambda>c. c \<noteq> CHR '':'') u") auto
    have u: "u = pre @ CHR '':'' # r"
      using takeWhile_dropWhile_id [of "\<lambda>c. c \<noteq> CHR '':''" u] unfolding pre_def dr by simp
    have pre_ok: "\<forall>x\<in>set pre. nqf x" using True by (simp add: pre_def list_all_iff)
    have colon: "\<forall>x\<in>set pre. x \<noteq> CHR '':''" unfolding pre_def by (auto dest: set_takeWhileD)
    have "takeWhile nqf (pre @ CHR '':'' # r) = pre @ CHR '':'' # takeWhile nqf r"
      using pre_ok by (simp add: takeWhile_append2 nqf_def)
    then have t: "takeWhile nqf u = pre @ CHR '':'' # takeWhile nqf r"
      using u by simp
    have p1: "takeWhile (\<lambda>c. c \<noteq> CHR '':'') u = pre" by (simp add: pre_def)
    have p2: "takeWhile (\<lambda>c. c \<noteq> CHR '':'') (takeWhile nqf u) = pre"
      using colon by (simp add: t takeWhile_append2)
    have c1: "CHR '':'' \<in> set (takeWhile nqf u)" by (simp add: t)
    have d1: "drop (length pre + 1) (takeWhile nqf u) = takeWhile nqf r" by (simp add: t)
    have "drop (length pre + 1) (pre @ CHR '':'' # r) = r" by simp
    then have d2: "drop (length pre + 1) u = r" using u by simp
    have "pre \<noteq> [] \<Longrightarrow> hd (pre @ CHR '':'' # r) = hd pre" by simp
    then have h2: "pre \<noteq> [] \<Longrightarrow> hd u = hd pre" using u by simp
    have h1: "pre \<noteq> [] \<Longrightarrow> hd (takeWhile nqf u) = hd pre" by (simp add: t)
    show ?thesis
      unfolding split_scheme_def Let_def p1 p2 d1 d2
      using c c1 h1 h2 by (cases "pre = []") simp_all
  qed
next
  case False
  define pre where "pre = takeWhile (\<lambda>c. c \<noteq> CHR '':'') u"
  have "\<not> list_all (\<lambda>c. c \<in> set scheme_chars) pre"
    using False scheme_chars_nqf unfolding pre_def list_all_iff by blast
  then have a: "split_scheme u = ([], u)"
    by (simp add: split_scheme_def Let_def pre_def)
  have "takeWhile nqf u = takeWhile nqf (takeWhile (\<lambda>c. c \<noteq> CHR '':'') u)"
    using False
  proof (induction u)
    case Nil then show ?case by simp
  next
    case (Cons x xs) then show ?case by (cases "x = CHR '':''") (auto simp: nqf_def)
  qed
  then have "set (takeWhile nqf u) \<subseteq> set pre"
    unfolding pre_def by (metis set_takeWhileD subsetI)
  moreover have "CHR '':'' \<notin> set pre" unfolding pre_def by (auto dest: set_takeWhileD)
  ultimately have "CHR '':'' \<notin> set (takeWhile nqf u)" by blast
  then have "split_scheme (takeWhile nqf u) = ([], takeWhile nqf u)"
    by (simp add: split_scheme_def Let_def)
  with a show ?thesis by simp
qed

lemma take2_nqf: "take 2 (takeWhile nqf u) = ''//'' \<longleftrightarrow> take 2 u = ''//''"
proof (cases u)
  case Nil then show ?thesis by simp
next
  case (Cons a v)
  show ?thesis
  proof (cases v)
    case Nil with Cons show ?thesis by simp
  next
    case (Cons b w)
    with \<open>u = a # v\<close> show ?thesis by (auto simp: nqf_def numeral_2_eq_2)
  qed
qed

lemma splitnetloc_nqf:
  assumes "take 2 u = ''//''"
  shows "splitnetloc (takeWhile nqf u) = (fst (splitnetloc u), takeWhile nqf (snd (splitnetloc u)))"
proof -
  from assms obtain body where u: "u = CHR ''/'' # CHR ''/'' # body"
    by (cases u; cases "tl u") (auto simp: numeral_2_eq_2)
  have d: "drop 2 (takeWhile nqf u) = takeWhile nqf body" "drop 2 u = body"
    by (simp_all add: u nqf_def numeral_2_eq_2)
  have a: "takeWhile (\<lambda>c. \<not> c \<in> set ''/?#'') (takeWhile nqf body)
             = takeWhile (\<lambda>c. \<not> c \<in> set ''/?#'') body"
    by (rule takeWhile_takeWhile_weaker) (simp add: nqf_def)
  have b: "dropWhile (\<lambda>c. \<not> c \<in> set ''/?#'') (takeWhile nqf body)
             = takeWhile nqf (dropWhile (\<lambda>c. \<not> c \<in> set ''/?#'') body)"
    by (rule dropWhile_takeWhile_commute) (simp add: nqf_def)
  show ?thesis
    unfolding splitnetloc_def Let_def d a b by simp
qed


lemma takeWhile_id_nqf:
  "takeWhile (\<lambda>c. c \<noteq> CHR ''#'') (takeWhile nqf xs) = takeWhile nqf xs"
  "takeWhile (\<lambda>c. c \<noteq> CHR ''?'') (takeWhile nqf xs) = takeWhile nqf xs"
  by (induction xs) (auto simp: nqf_def)

lemma path_is_takeWhile_nqf:
  "takeWhile (\<lambda>c. c \<noteq> CHR ''?'') (takeWhile (\<lambda>c. c \<noteq> CHR ''#'') xs) = takeWhile nqf xs"
  by (induction xs) (auto simp: nqf_def)

lemma urlsplit_without_query_fragment:
  "urlsplit chk (without_query_fragment u) =
     (case urlsplit chk u of
        Inl e \<Rightarrow> Inl e
      | Inr r \<Rightarrow> Inr (r\<lparr>query := [], fragment := []\<rparr>))"
proof -
  define url1 where "url1 = remove_unsafe (lstrip_c0 u)"
  obtain sch url2 where s: "split_scheme url1 = (sch, url2)" by fastforce
  have s': "split_scheme (takeWhile nqf url1) = (sch, takeWhile nqf url2)"
    using split_scheme_nqf [of url1] s by simp
  obtain nl url3 where
    n: "(if take 2 url2 = ''//'' then splitnetloc url2 else ([], url2)) = (nl, url3)"
    by fastforce
  have n': "(if take 2 (takeWhile nqf url2) = ''//'' then splitnetloc (takeWhile nqf url2)
             else ([], takeWhile nqf url2)) = (nl, takeWhile nqf url3)"
  proof (cases "take 2 url2 = ''//''")
    case True
    with n splitnetloc_nqf [OF True] take2_nqf [of url2] show ?thesis by simp
  next
    case False
    with n take2_nqf [of url2] show ?thesis by simp
  qed
  have l: "remove_unsafe (lstrip_c0 (takeWhile nqf u)) = takeWhile nqf url1"
    by (simp add: url1_def lstrip_c0_nqf remove_unsafe_nqf)
  have p: "takeWhile (\<lambda>c. c \<noteq> CHR ''?'') (takeWhile (\<lambda>c. c \<noteq> CHR ''#'') url3)
             = takeWhile nqf url3"
    by (rule path_is_takeWhile_nqf)
  have lhs: "urlsplit chk (takeWhile nqf u) =
     (if (CHR ''['' \<in> set nl \<and> CHR '']'' \<notin> set nl) \<or> (CHR '']'' \<in> set nl \<and> CHR ''['' \<notin> set nl)
      then Inl ValueError
      else if CHR ''['' \<in> set nl \<and> CHR '']'' \<in> set nl \<and> \<not> chk (bracketed_host nl)
      then Inl ValueError
      else Inr \<lparr>scheme = sch, netloc = nl, path = takeWhile nqf url3, query = [], fragment = []\<rparr>)"
    unfolding urlsplit_def l by (simp add: s' n' Let_def takeWhile_id_nqf)
  have rhs: "urlsplit chk u =
     (if (CHR ''['' \<in> set nl \<and> CHR '']'' \<notin> set nl) \<or> (CHR '']'' \<in> set nl \<and> CHR ''['' \<notin> set nl)
      then Inl ValueError
      else if CHR ''['' \<in> set nl \<and> CHR '']'' \<in> set nl \<and> \<not> chk (bracketed_host nl)
      then Inl ValueError
      else Inr \<lparr>scheme = sch, netloc = nl, path = takeWhile nqf url3,
                query = drop (length (takeWhile nqf url3) + 1) (takeWhile (\<lambda>c. c \<noteq> CHR ''#'') url3),
                fragment = drop (length (takeWhile (\<lambda>c. c \<noteq> CHR ''#'') url3) + 1) url3\<rparr>)"
    unfolding urlsplit_def url1_def [symmetric] by (simp add: s n Let_def p)
  show ?thesis
    unfolding without_query_fragment_def lhs rhs by simp
qed

lemma sanitise_url_without_query_fragment:
  "sanitise_url chk (without_query_fragment u) = sanitise_url chk u"
  unfolding sanitise_url_def urlsplit_without_query_fragment
  by (simp split: sum.splits)

lemma snd_pull_lever_without_query_fragment:
  "snd (pull_lever chk (without_query_fragment u)) = snd (pull_lever chk u)"
  unfolding pull_lever_def sanitise_url_without_query_fragment
  by (simp split: sum.splits)

lemma without_query_fragment_append:
  assumes "\<not> nqf c"
  shows "without_query_fragment (u @ c # q) = without_query_fragment u"
  unfolding without_query_fragment_def using assms
  by (induction u) auto

section \<open>Dispatch\<close>

text \<open>
  C4 as stated does not hold: the file-extension rule is tested first.  The URL
  \<open>https://reddit.com/r/pics/a.jpg\<close> is sanitised to \<open>reddit.com/r/pics/a.jpg\<close>, which
  matches the self-post pattern, and \<open>pull_lever\<close> raises \<open>NotADownloadableLinkError\<close>.
\<close>

theorem pull_lever_self_post_counterexample:
  "sanitise_url any_host ''https://reddit.com/r/pics/a.jpg'' = Inr ''reddit.com/r/pics/a.jpg''
   \<and> re_match self_post_pattern ''reddit.com/r/pics/a.jpg''
   \<and> snd (pull_lever any_host ''https://reddit.com/r/pics/a.jpg'') = Inl NotADownloadableLinkError"
  by code_simp

text \<open>
  C4, amended: for every URL whose sanitised host+path matches the self-post pattern
  (it starts with \<open>reddit.com/r/\<close>), \<open>pull_lever\<close> selects the self-post strategy, unless
  the sanitised URL also matches the file-extension rule (it ends in a three- or
  four-character extension that is not a web-page extension); that rule is tested first
  and raises \<open>NotADownloadableLinkError\<close>.
\<close>

theorem pull_lever_self_post:
  assumes "sanitise_url chk u = Inr s"
    and "take 13 s = ''reddit.com/r/''"
  shows "re_match self_post_pattern s
         \<and> snd (pull_lever chk u) =
             (if re_match_end file_extension_pattern s \<and> \<not> is_web_resource s
              then Inl NotADownloadableLinkError else Inr SelfPost)"
proof -
  have m: "re_match self_post_pattern s"
    using assms(2) by (simp add: re_match_self_post)
  with assms(1) show ?thesis
    by (simp add: pull_lever_def)
qed

theorem pull_lever_self_post_witness:
  "sanitise_url any_host ''http://reddit.com/r/test/abc123'' = Inr ''reddit.com/r/test/abc123''
   \<and> take 13 ''reddit.com/r/test/abc123'' = ''reddit.com/r/''
   \<and> re_match self_post_pattern ''reddit.com/r/test/abc123''
   \<and> snd (pull_lever any_host ''http://reddit.com/r/test/abc123'') = Inr SelfPost"
proof -
  have h1: "sanitise_url any_host ''http://reddit.com/r/test/abc123'' = Inr ''reddit.com/r/test/abc123''"
    by code_simp
  have h2: "take 13 ''reddit.com/r/test/abc123'' = ''reddit.com/r/''"
    by code_simp
  have h3: "\<not> (re_match_end file_extension_pattern ''reddit.com/r/test/abc123''
               \<and> \<not> is_web_resource ''reddit.com/r/test/abc123'')"
    by code_simp
  from pull_lever_self_post [OF h1 h2] h1 h2 h3 show ?thesis by simp
qed

text \<open>
  C5 as stated does not hold: \<open>https://www.reddit.com/r/test/index.html\<close> ends in a
  web-page extension, and \<open>pull_lever\<close> returns the self-post strategy.
\<close>

theorem pull_lever_web_resource_counterexample:
  "sanitise_url any_host ''https://www.reddit.com/r/test/index.html'' = Inr ''reddit.com/r/test/index.html''
   \<and> is_web_resource ''reddit.com/r/test/index.html''
   \<and> snd (pull_lever any_host ''https://www.reddit.com/r/test/index.html'') = Inr SelfPost"
  by code_simp

text \<open>
  C5, amended: for every URL whose sanitised host+path ends in a web-page extension
  (\<open>is_web_resource\<close>), \<open>pull_lever\<close> raises \<open>NotADownloadableLinkError\<close>, even when the
  URL has the shape of a file link, unless the sanitised URL starts with
  \<open>reddit.com/r/\<close>; then it selects the self-post strategy.
\<close>

theorem pull_lever_web_resource:
  assumes "sanitise_url chk u = Inr s"
    and "is_web_resource s"
  shows "snd (pull_lever chk u) =
           (if take 13 s = ''reddit.com/r/'' then Inr SelfPost else Inl NotADownloadableLinkError)"
  using assms by (simp add: pull_lever_def re_match_self_post)

theorem pull_lever_web_resource_witness:
  "sanitise_url any_host ''https://example.com/page/index.php'' = Inr ''example.com/page/index.php''
   \<and> is_web_resource ''example.com/page/index.php''
   \<and> re_match_end file_extension_pattern ''example.com/page/index.php''
   \<and> snd (pull_lever any_host ''https://example.com/page/index.php'') = Inl NotADownloadableLinkError"
proof -
  have h1: "sanitise_url any_host ''https://example.com/page/index.php'' = Inr ''example.com/page/index.php''"
    by code_simp
  have h2: "is_web_resource ''example.com/page/index.php''"
    by code_simp
  have h3: "re_match_end file_extension_pattern ''example.com/page/index.php''"
    by code_simp
  have h4: "take 13 ''example.com/page/index.php'' \<noteq> ''reddit.com/r/''"
    by code_simp
  from pull_lever_web_resource [OF h1 h2] h1 h2 h3 h4 show ?thesis by simp
qed

text \<open>
  C10: for every URL, \<open>pull_lever\<close> returns the same class or raises the same exception as
  for the URL with its query string and fragment removed, and as for the URL with a query
  string or a fragment added.  The sanitised URL never contains \<open>?\<close>, so on it the
  file-extension pattern matches exactly when the pattern without its query-string
  allowance does.
\<close>

theorem pull_lever_ignores_query_fragment:
  "snd (pull_lever chk (without_query_fragment u)) = snd (pull_lever chk u)
   \<and> snd (pull_lever chk (u @ CHR ''?'' # q)) = snd (pull_lever chk u)
   \<and> snd (pull_lever chk (u @ CHR ''#'' # f)) = snd (pull_lever chk u)
   \<and> (\<forall>s. sanitise_url chk u = Inr s \<longrightarrow>
          CHR ''?'' \<notin> set s
          \<and> re_match_end file_extension_pattern s = re_match_end file_extension_shape s)"
proof -
  have a: "snd (pull_lever chk (u @ c # x)) = snd (pull_lever chk u)" if "\<not> nqf c" for c x
    using snd_pull_lever_without_query_fragment [of chk "u @ c # x"]
      snd_pull_lever_without_query_fragment [of chk u]
      without_query_fragment_append [OF that, of u x]
    by simp
  have b: "CHR ''?'' \<notin> set s
           \<and> re_match_end file_extension_pattern s = re_match_end file_extension_shape s"
    if "sanitise_url chk u = Inr s" for s
    using sanitise_url_no_query_char [OF that] re_match_end_file_extension by blast
  show ?thesis
    using a [of "CHR ''?''" q] a [of "CHR ''#''" f] b snd_pull_lever_without_query_fragment [of chk u]
    by (simp add: nqf_def)
qed

theorem pull_lever_ignores_query_fragment_witness:
  "without_query_fragment ''https://i.redd.it/abc.png?width=640&s=1#top'' = ''https://i.redd.it/abc.png''
   \<and> snd (pull_lever any_host ''https://i.redd.it/abc.png'')
       = snd (pull_lever any_host ''https://i.redd.it/abc.png?width=640&s=1#top'')
   \<and> sanitise_url any_host ''https://i.redd.it/abc.png?width=640&s=1#top'' = Inr ''i.redd.it/abc.png''
   \<and> CHR ''?'' \<notin> set ''i.redd.it/abc.png''
   \<and> re_match_end file_extension_pattern ''i.redd.it/abc.png''
       = re_match_end file_extension_shape ''i.redd.it/abc.png''"
proof -
  have h1: "without_query_fragment ''https://i.redd.it/abc.png?width=640&s=1#top'' = ''https://i.redd.it/abc.png''"
    by code_simp
  have h2: "sanitise_url any_host ''https://i.redd.it/abc.png?width=640&s=1#top'' = Inr ''i.redd.it/abc.png''"
    by code_simp
  from pull_lever_ignores_query_fragment [of any_host "''https://i.redd.it/abc.png?width=640&s=1#top''"]
    h1 h2
  show ?thesis by simp
qed

section \<open>The existing-file scan\<close>

lemma chunk_size_pos: "0 < chunk_size"
  by (simp add: chunk_size_def)

lemma calc_hash_loop_eq:
  "(chunk = [] \<longrightarrow> rest = []) \<Longrightarrow> calc_hash_loop st chunk rest = st @ chunk @ rest"
proof (induction st chunk rest rule: calc_hash_loop.induct)
  case (1 md5_hash chunk rest)
  show ?case
  proof (cases "chunk = []")
    case True
    with 1 show ?thesis by (simp add: calc_hash_loop.simps [of md5_hash chunk rest])
  next
    case False
    have "take chunk_size rest = [] \<longrightarrow> drop chunk_size rest = []"
      using chunk_size_pos by (cases rest) auto
    from 1(1) [OF False this] False show ?thesis
      by (simp add: calc_hash_loop.simps [of md5_hash chunk rest])
  qed
qed

lemma calc_hash_eq:
  "calc_hash digest fs p = (case fs p of None \<Rightarrow> Inl OSError | Some c \<Rightarrow> Inr (p, digest c))"
proof (cases "fs p")
  case None
  then show ?thesis by (simp add: calc_hash_def)
next
  case (Some c)
  have "take chunk_size c = [] \<longrightarrow> drop chunk_size c = []"
    using chunk_size_pos by (cases c) auto
  from calc_hash_loop_eq [OF this, of "[]"] Some show ?thesis
    by (simp add: calc_hash_def)
qed

lemma pool_map_calc_hash:
  "set ps \<subseteq> dom fs \<Longrightarrow>
   pool_map (calc_hash digest fs) ps = Inr (map (\<lambda>p. (p, digest (the (fs p)))) ps)"
  by (induction ps) (auto simp: calc_hash_eq)

lemma case_nonempty:
  "xs \<noteq> [] \<Longrightarrow> (case xs of [] \<Rightarrow> a | x # y \<Rightarrow> F (x # y)) = F xs"
  by (cases xs) auto

lemma foldl_dict:
  "foldl (\<lambda>d res. d(snd res \<mapsto> fst res)) d0 results h =
     (case filter (\<lambda>res. snd res = h) results of
        [] \<Rightarrow> d0 h
      | rs \<Rightarrow> Some (fst (last rs)))"
  by (induction results arbitrary: d0) (auto split: list.splits)

lemma dict_of_results_map:
  "dict_of_results (map (\<lambda>p. (p, g p)) ps) h =
     (case filter (\<lambda>p. g p = h) ps of [] \<Rightarrow> None | qs \<Rightarrow> Some (last qs))"
proof -
  have f: "filter (\<lambda>res. snd res = h) (map (\<lambda>p. (p, g p)) ps)
             = map (\<lambda>p. (p, g p)) (filter (\<lambda>p. g p = h) ps)"
    by (induction ps) auto
  show ?thesis
  proof (cases "filter (\<lambda>p. g p = h) ps = []")
    case True
    then show ?thesis
      unfolding dict_of_results_def foldl_dict f by simp
  next
    case False
    then obtain q qs where q: "filter (\<lambda>p. g p = h) ps = q # qs"
      by (auto simp: neq_Nil_conv)
    have "fst (last (map (\<lambda>p. (p, g p)) (q # qs))) = last (q # qs)"
      by (subst last_map) simp_all
    then show ?thesis
      unfolding dict_of_results_def foldl_dict f q by simp
  qed
qed

lemma scan_existing_files_eq:
  assumes "set (walk_files walk) \<subseteq> dom fs"
  shows "scan_existing_files digest fs walk =
           Inr (\<lambda>h. case filter (\<lambda>p. digest (the (fs p)) = h) (walk_files walk) of
                       [] \<Rightarrow> None | qs \<Rightarrow> Some (last qs))"
  unfolding scan_existing_files_def Let_def pool_map_calc_hash [OF assms]
  by (simp add: dict_of_results_map [abs_def])

lemma filter_file_hash:
  assumes "set ps \<subseteq> dom fs"
  shows "filter (\<lambda>p. digest (the (fs p)) = h) ps = filter (\<lambda>p. file_hash digest fs p = Some h) ps"
  using assms by (intro filter_cong) (auto simp: file_hash_def)

text \<open>
  C9: when every file the walk enumerates is on disk, the scan returns an index with
  exactly one entry for each distinct content hash among these files; the path recorded
  for a hash is the last file in enumeration order with that hash, and it is a file on
  disk with that content hash.
\<close>

theorem scan_existing_files_index:
  assumes "set (walk_files walk) \<subseteq> dom fs"
  shows "\<exists>index. scan_existing_files digest fs walk = Inr index
           \<and> dom index = {h. \<exists>p \<in> set (walk_files walk). file_hash digest fs p = Some h}
           \<and> (\<forall>h p. index h = Some p \<longrightarrow>
                  p \<in> set (walk_files walk) \<and> p \<in> dom fs \<and> file_hash digest fs p = Some h
                  \<and> p = last (filter (\<lambda>q. file_hash digest fs q = Some h) (walk_files walk)))"
proof -
  define index where
    "index = (\<lambda>h. case filter (\<lambda>p. file_hash digest fs p = Some h) (walk_files walk) of
                     [] \<Rightarrow> None | qs \<Rightarrow> Some (last qs))"
  have s: "scan_existing_files digest fs walk = Inr index"
    unfolding scan_existing_files_eq [OF assms] index_def filter_file_hash [OF assms] ..
  have l: "index h = Some p \<Longrightarrow>
             p = last (filter (\<lambda>q. file_hash digest fs q = Some h) (walk_files walk))
             \<and> filter (\<lambda>q. file_hash digest fs q = Some h) (walk_files walk) \<noteq> []" for h p
    by (auto simp: index_def split: list.splits)
  have m: "p \<in> set (walk_files walk) \<and> file_hash digest fs p = Some h" if "index h = Some p" for h p
  proof -
    from l [OF that] have "p \<in> set (filter (\<lambda>q. file_hash digest fs q = Some h) (walk_files walk))"
      using last_in_set by blast
    then show ?thesis by simp
  qed
  have d: "dom index = {h. \<exists>p \<in> set (walk_files walk). file_hash digest fs p = Some h}"
  proof (rule set_eqI)
    fix h
    have "index h \<noteq> None \<longleftrightarrow> filter (\<lambda>q. file_hash digest fs q = Some h) (walk_files walk) \<noteq> []"
      by (auto simp: index_def split: list.splits)
    also have "\<dots> \<longleftrightarrow> (\<exists>p \<in> set (walk_files walk). file_hash digest fs p = Some h)"
      by (simp add: filter_empty_conv)
    finally show "h \<in> dom index \<longleftrightarrow> h \<in> {h. \<exists>p \<in> set (walk_files walk). file_hash digest fs p = Some h}"
      by (simp add: dom_def)
  qed
  from s d l m assms show ?thesis by blast
qed

theorem scan_existing_files_index_witness:
  "set (walk_files example_walk) \<subseteq> dom example_disk
   \<and> (\<exists>index. scan_existing_files example_digest example_disk example_walk = Inr index
         \<and> dom index = {''xx'', ''yy''}
         \<and> index ''xx'' = Some [''out'', ''c'']
         \<and> index ''yy'' = Some [''out'', ''b''])"
proof -
  have w: "walk_files example_walk = [[''out'', ''a''], [''out'', ''b''], [''out'', ''c'']]"
    by (simp add: walk_files_def example_walk_def)
  have h: "set (walk_files example_walk) \<subseteq> dom example_disk"
    by (simp add: w example_disk_def)
  have fh: "file_hash example_digest example_disk [''out'', ''a''] = Some ''xx''"
    "file_hash example_digest example_disk [''out'', ''b''] = Some ''yy''"
    "file_hash example_digest example_disk [''out'', ''c''] = Some ''xx''"
    by (simp_all add: file_hash_def example_disk_def example_digest_def)
  from scan_existing_files_index [OF h, of example_digest]
  obtain index where s: "scan_existing_files example_digest example_disk example_walk = Inr index"
    and d: "dom index = {h. \<exists>p \<in> set (walk_files example_walk). file_hash example_digest example_disk p = Some h}"
    and l: "\<And>h p. index h = Some p \<Longrightarrow>
              p = last (filter (\<lambda>q. file_hash example_digest example_disk q = Some h) (walk_files example_walk))"
    by blast
  have d': "dom index = {''xx'', ''yy''}"
    unfolding d w using fh by auto
  then obtain p q where pq: "index ''xx'' = Some p" "index ''yy'' = Some q"
    by (metis domD insertI1 insertI2)
  from l [OF pq(1)] l [OF pq(2)] have "p = [''out'', ''c'']" "q = [''out'', ''b'']"
    unfolding w by (simp_all add: fh)
  with pq s d' h show ?thesis by blast
qed

lemma pool_map_Inr:
  "pool_map f xs = Inr ys \<Longrightarrow> x \<in> set xs \<Longrightarrow> \<exists>y. f x = Inr y"
  by (induction xs arbitrary: ys) (auto split: sum.splits)

lemma scan_existing_files_readable:
  assumes "scan_existing_files digest fs walk = Inr index"
  shows "set (walk_files walk) \<subseteq> dom fs"
proof
  fix p assume p: "p \<in> set (walk_files walk)"
  from assms obtain results where "pool_map (calc_hash digest fs) (walk_files walk) = Inr results"
    by (auto simp: scan_existing_files_def Let_def split: sum.splits)
  from pool_map_Inr [OF this p] show "p \<in> dom fs"
    by (auto simp: calc_hash_eq split: option.splits)
qed

text \<open>After a constructor that scanned, every indexed path is a file on disk.\<close>

lemma init_index_on_disk:
  assumes "init E a walk w = Inr w'" and "search_existing a"
  shows "index_on_disk w' \<and> files w' = files w"
proof -
  from assms obtain index where s: "scan_existing_files (md5 E) (files w) walk = Inr index"
    and w': "w' = w\<lparr>master_hash_list := index\<rparr>"
    by (auto simp: init_def split: sum.splits)
  note r = scan_existing_files_readable [OF s]
  have "p \<in> dom (files w)" if "index h = Some p" for h p
  proof -
    from s that scan_existing_files_eq [OF r, of "md5 E"]
    have "filter (\<lambda>q. md5 E (the (files w q)) = h) (walk_files walk) \<noteq> []"
      and "p = last (filter (\<lambda>q. md5 E (the (files w q)) = h) (walk_files walk))"
      by (auto split: list.splits)
    then have "p \<in> set (filter (\<lambda>q. md5 E (the (files w q)) = h) (walk_files walk))"
      using last_in_set by blast
    with r show ?thesis by auto
  qed
  then show ?thesis
    by (auto simp: index_on_disk_def ran_def w')
qed

section \<open>The hash index during a run\<close>

lemma log_msg_simps [simp]:
  "files (log_msg l m w) = files w"
  "master_hash_list (log_msg l m w) = master_hash_list w"
  "stdout (log_msg l m w) = stdout w"
  "logged (log_msg l m w) = logged w @ [(l, m)]"
  by (simp_all add: log_msg_def)

lemma index_grows_refl: "index_grows E self w w"
  by (simp add: index_grows_def)

lemma index_grows_same:
  "files w' = files w \<Longrightarrow> master_hash_list w' = master_hash_list w \<Longrightarrow> index_grows E self w w'"
  by (simp add: index_grows_def)

lemma index_growsD:
  assumes "index_grows E self w w'"
  shows "files w \<subseteq>\<^sub>m files w'"
    and "dom (master_hash_list w) \<subseteq> dom (master_hash_list w')"
    and "\<And>h p. master_hash_list w' h = Some p \<Longrightarrow>
           master_hash_list w h = Some p \<or> (\<exists>c. files w' p = Some c \<and> md5 E c = h)"
    and "\<And>h. no_dupes (args self) \<or> make_hard_links (args self) \<Longrightarrow>
           h \<in> dom (master_hash_list w) \<Longrightarrow> master_hash_list w' h = master_hash_list w h"
  using assms unfolding index_grows_def by blast+

lemma index_grows_trans:
  assumes "index_grows E self w1 w2" and "index_grows E self w2 w3"
  shows "index_grows E self w1 w3"
proof -
  have f: "files w1 \<subseteq>\<^sub>m files w3"
    using index_growsD(1) [OF assms(1)] index_growsD(1) [OF assms(2)] by (rule map_le_trans)
  have d: "dom (master_hash_list w1) \<subseteq> dom (master_hash_list w3)"
    using index_growsD(2) [OF assms(1)] index_growsD(2) [OF assms(2)] by (rule subset_trans)
  have n: "master_hash_list w1 h = Some p \<or> (\<exists>c. files w3 p = Some c \<and> md5 E c = h)"
    if "master_hash_list w3 h = Some p" for h p
  proof -
    from index_growsD(3) [OF assms(2) that]
    consider "master_hash_list w2 h = Some p" | c where "files w3 p = Some c" "md5 E c = h"
      by blast
    then show ?thesis
    proof cases
      case 1
      from index_growsD(3) [OF assms(1) 1]
      consider "master_hash_list w1 h = Some p" | c where "files w2 p = Some c" "md5 E c = h"
        by blast
      then show ?thesis
      proof cases
        case 1 then show ?thesis by simp
      next
        case 2
        with index_growsD(1) [OF assms(2)] have "files w3 p = Some c"
          by (metis domI map_le_def)
        with 2 show ?thesis by blast
      qed
    next
      case 2 then show ?thesis by blast
    qed
  qed
  have k: "master_hash_list w3 h = master_hash_list w1 h"
    if p: "no_dupes (args self) \<or> make_hard_links (args self)"
      and h: "h \<in> dom (master_hash_list w1)" for h
  proof -
    from index_growsD(4) [OF assms(1) p h] have a: "master_hash_list w2 h = master_hash_list w1 h" .
    with h have "h \<in> dom (master_hash_list w2)" by (auto simp: dom_def)
    from index_growsD(4) [OF assms(2) p this] a show ?thesis by simp
  qed
  from f d n k show ?thesis
    unfolding index_grows_def by blast
qed

lemma except_OSError_same:
  "except_OSError E s destination e w = (fl, w') \<Longrightarrow>
     files w' = files w \<and> master_hash_list w' = master_hash_list w \<and> stdout w' = stdout w"
  by (auto simp: except_OSError_def split: if_splits)

lemma index_grows_file_added:
  "files w destination = None \<Longrightarrow>
   index_grows E self w (w\<lparr>files := (files w)(destination \<mapsto> c)\<rparr>)"
  by (auto simp: index_grows_def map_le_def)

lemma write_resource_index_grows:
  assumes "write_resource E s destination content (md5 E content) w = (fl, w')"
    and "files w destination = None"
    and "no_dupes (args self) \<or> make_hard_links (args self)
           \<longrightarrow> master_hash_list w (md5 E content) = None"
  shows "index_grows E self w w'"
proof (cases "os_open E destination")
  case (Some e)
  with assms(1) have "except_OSError E s destination e w = (fl, w')"
    by (simp add: write_resource_def)
  from except_OSError_same [OF this] show ?thesis by (simp add: index_grows_same)
next
  case None
  show ?thesis
  proof (cases "os_write E destination content")
    case (Some en)
    obtain e n where en: "en = (e, n)" by (cases en)
    let ?w1 = "w\<lparr>files := (files w)(destination \<mapsto> take n content)\<rparr>"
    from assms(1) None Some en have "except_OSError E s destination e ?w1 = (fl, w')"
      by (simp add: write_resource_def)
    from except_OSError_same [OF this] have "index_grows E self ?w1 w'"
      by (simp add: index_grows_same)
    with index_grows_file_added [OF assms(2)] show ?thesis
      by (rule index_grows_trans)
  next
    case w: None
    let ?w1 = "w\<lparr>files := (files w)(destination \<mapsto> content)\<rparr>"
    show ?thesis
    proof (cases "os_utime E destination s")
      case (Some e)
      with assms(1) None w have "w' = log_msg DEBUG (Written destination) ?w1"
        by (simp add: write_resource_def Let_def)
      then have "index_grows E self ?w1 w'" by (simp add: index_grows_same)
      with index_grows_file_added [OF assms(2)] show ?thesis
        by (rule index_grows_trans)
    next
      case u: None
      with assms(1) None w have w': "w' = log_msg DEBUG (HashAdded (md5 E content))
          ((log_msg DEBUG (Written destination) ?w1)
             \<lparr>master_hash_list := (master_hash_list w)(md5 E content \<mapsto> destination)\<rparr>)"
        by (simp add: write_resource_def Let_def)
      show ?thesis
        unfolding w' index_grows_def using assms(2,3)
        by (auto simp: map_le_def)
    qed
  qed
qed

lemma link_resource_index_grows:
  assumes "link_resource E s destination existing w = (fl, w')"
    and "files w destination = None"
  shows "index_grows E self w w'"
  using assms
  by (auto simp: link_resource_def index_grows_refl split: option.splits
           intro!: index_grows_trans [OF index_grows_file_added index_grows_same])

lemma loop_body_index_grows:
  assumes "loop_body E self s c destination res w = (fl, w')"
  shows "index_grows E self w w'"
proof (cases "files w destination \<noteq> None \<or> \<not> check_resource E res")
  case True
  with assms show ?thesis
    by (auto simp: loop_body_def index_grows_same split: if_splits)
next
  case False
  then have f: "files w destination = None" and k: "check_resource E res" by auto
  show ?thesis
  proof (cases "download_result res")
    case (Inl e)
    with assms f k show ?thesis
      by (auto simp: loop_body_def index_grows_same split: if_splits)
  next
    case (Inr content)
    show ?thesis
    proof (cases "os_mkdir E (parent destination)")
      case (Some e)
      with assms f k Inr show ?thesis
        by (simp add: loop_body_def index_grows_refl)
    next
      case None
      show ?thesis
      proof (cases "master_hash_list w (md5 E content)")
        case n: None
        with assms f k Inr None
        have "write_resource E s destination content (md5 E content) w = (fl, w')"
          by (simp add: loop_body_def)
        from write_resource_index_grows [OF this f] n show ?thesis by simp
      next
        case (Some existing)
        consider "no_dupes (args self)"
          | "\<not> no_dupes (args self)" "make_hard_links (args self)"
          | "\<not> no_dupes (args self)" "\<not> make_hard_links (args self)"
          by blast
        then show ?thesis
        proof cases
          case 1
          with assms f k Inr None Some show ?thesis
            by (auto simp: loop_body_def index_grows_same)
        next
          case 2
          with assms f k Inr None Some
          have "link_resource E s destination existing w = (fl, w')"
            by (simp add: loop_body_def)
          from link_resource_index_grows [OF this f] show ?thesis .
        next
          case 3
          with assms f k Inr None Some
          have "write_resource E s destination content (md5 E content) w = (fl, w')"
            by (simp add: loop_body_def)
          from write_resource_index_grows [OF this f] 3 show ?thesis by simp
        qed
      qed
    qed
  qed
qed

lemma for_resources_index_grows:
  "for_resources E self s c items w = (fl, w') \<Longrightarrow> index_grows E self w w'"
proof (induction items arbitrary: w)
  case Nil
  then show ?case by (simp add: index_grows_refl)
next
  case (Cons item items)
  obtain destination res where item: "item = (destination, res)" by (cases item)
  obtain fl1 w1 where b: "loop_body E self s c destination res w = (fl1, w1)" by fastforce
  note g = loop_body_index_grows [OF b]
  show ?case
  proof (cases fl1)
    case Continue
    with Cons.prems item b have "for_resources E self s c items w1 = (fl, w')" by simp
    from index_grows_trans [OF g Cons.IH [OF this]] show ?thesis .
  next
    case Return
    with Cons.prems item b g show ?thesis by simp
  next
    case (Raise e)
    with Cons.prems item b g show ?thesis by simp
  qed
qed

lemma index_grows_cong:
  "index_grows E self a b \<Longrightarrow> files a' = files a \<Longrightarrow> master_hash_list a' = master_hash_list a
   \<Longrightarrow> files b' = files b \<Longrightarrow> master_hash_list b' = master_hash_list b
   \<Longrightarrow> index_grows E self a' b'"
  by (simp add: index_grows_def)

lemma except_NotADownloadable_same:
  "except_NotADownloadable E e w = (r, w') \<Longrightarrow> w' = w"
  by (auto simp: except_NotADownloadable_def split: if_splits)

lemma download_submission_index_grows:
  assumes "download_submission E self s w = (r, w')"
  shows "index_grows E self w w'"
proof (cases "filter_rejection E self s")
  case (Some rej)
  with assms show ?thesis
    by (auto simp: download_submission_def index_grows_same)
next
  case None
  obtain printed lever where pl: "pull_lever (bracketed_ok E) (url s) = (printed, lever)"
    by fastforce
  define w2 where "w2 = (log_msg DEBUG (Attempting (submission_id s)) w)
                          \<lparr>stdout := stdout (log_msg DEBUG (Attempting (submission_id s)) w) @ printed\<rparr>"
  have w2: "files w2 = files w" "master_hash_list w2 = master_hash_list w"
    by (simp_all add: w2_def)
  show ?thesis
  proof (cases lever)
    case (Inl e)
    with assms None pl have "except_NotADownloadable E e w2 = (r, w')"
      by (simp add: download_submission_def Let_def w2_def)
    from except_NotADownloadable_same [OF this] w2 show ?thesis
      by (simp add: index_grows_same)
  next
    case (Inr c)
    show ?thesis
    proof (cases "construct E c s")
      case (Some e)
      with assms None pl Inr have "except_NotADownloadable E e w2 = (r, w')"
        by (simp add: download_submission_def Let_def w2_def)
      from except_NotADownloadable_same [OF this] w2 show ?thesis
        by (simp add: index_grows_same)
    next
      case n: None
      define w3 where "w3 = log_msg DEBUG (Using (class_name c) (url s)) w2"
      have w3: "files w3 = files w" "master_hash_list w3 = master_hash_list w"
        by (simp_all add: w3_def w2)
      show ?thesis
      proof (cases "lower (class_name c) \<in> set (disable_module (args self))")
        case True
        with assms None pl Inr n w3 show ?thesis
          by (auto simp: download_submission_def Let_def w2_def w3_def index_grows_same)
      next
        case False
        show ?thesis
        proof (cases "find_resources E c s")
          case (Inl e)
          with assms None pl Inr n False w3 show ?thesis
            by (auto simp: download_submission_def Let_def w2_def w3_def index_grows_same
                     split: if_splits)
        next
          case content: (Inr content)
          obtain fl w4 where fr:
            "for_resources E self s c (format_resource_paths E content) w3 = (fl, w4)"
            by fastforce
          from for_resources_index_grows [OF fr] have g: "index_grows E self w3 w4" .
          from assms None pl Inr n False content fr
          have "files w' = files w4 \<and> master_hash_list w' = master_hash_list w4"
            by (cases fl) (auto simp: download_submission_def Let_def w2_def w3_def)
          with g w3 show ?thesis
            by (auto intro: index_grows_cong)
        qed
      qed
    qed
  qed
qed

lemma for_submissions_index_grows:
  "for_submissions E self subs w = (r, w') \<Longrightarrow> index_grows E self w w'"
proof (induction subs arbitrary: w)
  case Nil
  then show ?case by (simp add: index_grows_refl)
next
  case (Cons s subs)
  obtain r1 w1 where d: "download_submission E self s w = (r1, w1)" by fastforce
  note g = download_submission_index_grows [OF d]
  show ?case
  proof (cases r1)
    case None
    with Cons.prems d have "for_submissions E self subs w1 = (r, w')" by simp
    from index_grows_trans [OF g Cons.IH [OF this]] show ?thesis .
  next
    case (Some e)
    with Cons.prems d g show ?thesis by simp
  qed
qed

lemma download_index_grows:
  "download E self reddit_lists w = (r, w') \<Longrightarrow> index_grows E self w w'"
proof (induction reddit_lists arbitrary: w)
  case Nil
  then show ?case by (simp add: index_grows_refl)
next
  case (Cons g gs)
  obtain r1 w1 where d: "for_submissions E self g w = (r1, w1)" by fastforce
  note i = for_submissions_index_grows [OF d]
  show ?case
  proof (cases r1)
    case None
    with Cons.prems d have "download E self gs w1 = (r, w')" by simp
    from index_grows_trans [OF i Cons.IH [OF this]] show ?thesis .
  next
    case (Some e)
    with Cons.prems d i show ?thesis by simp
  qed
qed

lemma index_on_disk_grows:
  assumes "index_on_disk w" and "index_grows E self w w'"
  shows "index_on_disk w'"
  unfolding index_on_disk_def
proof
  fix p assume "p \<in> ran (master_hash_list w')"
  then obtain h where h: "master_hash_list w' h = Some p" by (auto simp: ran_def)
  from index_growsD(3) [OF assms(2) h] show "p \<in> dom (files w')"
  proof
    assume "master_hash_list w h = Some p"
    then have "p \<in> dom (files w)" using assms(1) by (auto simp: index_on_disk_def ran_def)
    with index_growsD(1) [OF assms(2)] show ?thesis
      by (auto simp: map_le_def dom_def)
  next
    assume "\<exists>c. files w' p = Some c \<and> md5 E c = h"
    then show ?thesis by auto
  qed
qed

section \<open>Failures in the resource loop\<close>

lemma for_resources_append:
  "for_resources E self s c (xs @ ys) w =
     (case for_resources E self s c xs w of
        (Continue, w') \<Rightarrow> for_resources E self s c ys w'
      | (Return, w') \<Rightarrow> (Return, w')
      | (Raise e, w') \<Rightarrow> (Raise e, w'))"
proof (induction xs arbitrary: w)
  case Nil
  show ?case by simp
next
  case (Cons x xs)
  obtain destination res where x: "x = (destination, res)" by (cases x)
  obtain fl w1 where b: "loop_body E self s c destination res w = (fl, w1)" by fastforce
  show ?case
    by (cases fl) (simp_all add: x b Cons.IH)
qed

lemma for_resources_stops:
  assumes "for_resources E self s c before w0 = (Continue, w)"
    and "loop_body E self s c destination res w = (Return, w')"
  shows "for_resources E self s c (before @ (destination, res) # rest) w0 = (Return, w')"
  using assms by (simp add: for_resources_append)

lemma loop_body_fetch_fails:
  assumes "files w destination = None" and "check_resource E res"
    and "download_result res = Inl e" and "isinstance E e BulkDownloaderException"
  shows "loop_body E self s c destination res w =
           (Return, log_msg ERROR (FailedDownload (resource_url res) (submission_id s) (class_name c) e) w)"
  using assms by (simp add: loop_body_def)

lemma loop_body_reaches_write:
  assumes "files w destination = None" and "check_resource E res"
    and "download_result res = Inr content"
    and "os_mkdir E (parent destination) = None"
    and "master_hash_list w (md5 E content) = None
         \<or> (\<not> no_dupes (args self) \<and> \<not> make_hard_links (args self))"
  shows "loop_body E self s c destination res w =
           write_resource E s destination content (md5 E content) w"
  using assms by (auto simp: loop_body_def Let_def split: option.splits)

lemma write_resource_fails:
  assumes "os_open E destination = Some e
           \<or> (os_open E destination = None \<and> os_write E destination content = Some (e, n))"
    and "isinstance E e OSError"
  shows "\<exists>w'. write_resource E s destination content h w = (Return, w')
           \<and> logged w' = logged w @ [(ERROR, ExceptionTrace e),
                                       (ERROR, FailedWrite (submission_id s) destination e)]
           \<and> master_hash_list w' = master_hash_list w
           \<and> (\<forall>p. p \<noteq> destination \<longrightarrow> files w' p = files w p)"
  using assms by (auto simp: write_resource_def except_OSError_def)

text \<open>
  C3 as stated does not hold: the handler of the fetch error ends in \<open>return\<close>.  When
  the fetch of the first of two resources fails, the second, which could be written, is
  not processed.
\<close>

theorem fetch_failure_counterexample:
  "find_resources fetch_fails_env SelfPost example_submission
     = Inr [resource_one\<lparr>download_result := Inl BulkDownloaderException\<rparr>, resource_two]
   \<and> files (snd (for_resources fetch_fails_env example_connector example_submission SelfPost
                    [([''out'', ''two''], resource_two)] example_world)) [''out'', ''two'']
       = Some ''yy''
   \<and> fst (download_submission fetch_fails_env example_connector example_submission example_world)
       = None
   \<and> logged (snd (download_submission fetch_fails_env example_connector example_submission
                     example_world))
       = [(DEBUG, Attempting ''abc123''),
          (DEBUG, Using ''SelfPost'' ''http://reddit.com/r/test/abc123''),
          (ERROR, FailedDownload ''one'' ''abc123'' ''SelfPost'' BulkDownloaderException)]
   \<and> files (snd (download_submission fetch_fails_env example_connector example_submission
                    example_world)) [''out'', ''two''] = None"
  by code_simp

text \<open>
  C3, amended: when the fetch of a resource fails (\<open>res.download\<close> raises an instance of
  \<open>BulkDownloaderException\<close>, which is also what exceeding the maximum wait does), the
  failure is logged as an error and the loop over the submission's resources ends there,
  by a \<open>return\<close> and not by an exception: the remaining resources of the submission are
  not processed, whatever they are.
\<close>

theorem fetch_failure_ends_submission:
  assumes "for_resources E self s c before w0 = (Continue, w)"
    and "files w destination = None" and "check_resource E res"
    and "download_result res = Inl e" and "isinstance E e BulkDownloaderException"
  shows "for_resources E self s c (before @ (destination, res) # rest) w0 =
           (Return, log_msg ERROR (FailedDownload (resource_url res) (submission_id s)
                                      (class_name c) e) w)
         \<and> for_resources E self s c (before @ (destination, res) # rest) w0 =
             for_resources E self s c (before @ [(destination, res)]) w0"
  using for_resources_stops [OF assms(1) loop_body_fetch_fails [OF assms(2-5)]]
  by simp

theorem fetch_failure_ends_submission_witness:
  "for_resources example_env example_connector example_submission SelfPost
     ([] @ ([''out'', ''one''], resource_one\<lparr>download_result := Inl BulkDownloaderException\<rparr>)
         # [([''out'', ''two''], resource_two)]) example_world
   = (Return, log_msg ERROR (FailedDownload ''one'' ''abc123'' ''SelfPost'' BulkDownloaderException)
                example_world)"
proof -
  let ?res = "resource_one\<lparr>download_result := Inl BulkDownloaderException\<rparr>"
  have 1: "for_resources example_env example_connector example_submission SelfPost []
             example_world = (Continue, example_world)"
    by simp
  have 2: "files example_world [''out'', ''one''] = None"
    by (simp add: example_world_def)
  have 3: "check_resource example_env ?res"
    by (simp add: example_env_def)
  have 4: "download_result ?res = Inl BulkDownloaderException"
    by simp
  have 5: "isinstance example_env BulkDownloaderException BulkDownloaderException"
    by (simp add: isinstance_def)
  from fetch_failure_ends_submission [OF 1 2 3 4 5, of "[([''out'', ''two''], resource_two)]"]
  show ?thesis
    by (simp add: resource_one_def example_submission_def class_name_def)
qed

text \<open>
  C2 as stated does not hold: the handler of the write error ends in \<open>return\<close>.  When
  \<open>open\<close> fails for the first of two resources, the second, which could be written, is
  not processed: it is neither on disk nor in the log.
\<close>

theorem write_failure_counterexample:
  "os_open open_fails_env [''out'', ''one''] = Some OSError
   \<and> format_resource_paths open_fails_env [resource_one, resource_two]
       = [([''out'', ''one''], resource_one), ([''out'', ''two''], resource_two)]
   \<and> files (snd (for_resources open_fails_env example_connector example_submission SelfPost
                    [([''out'', ''two''], resource_two)] example_world)) [''out'', ''two'']
       = Some ''yy''
   \<and> fst (download_submission open_fails_env example_connector example_submission example_world)
       = None
   \<and> logged (snd (download_submission open_fails_env example_connector example_submission
                     example_world))
       = [(DEBUG, Attempting ''abc123''),
          (DEBUG, Using ''SelfPost'' ''http://reddit.com/r/test/abc123''),
          (ERROR, ExceptionTrace OSError),
          (ERROR, FailedWrite ''abc123'' [''out'', ''one''] OSError)]
   \<and> files (snd (download_submission open_fails_env example_connector example_submission
                    example_world)) [''out'', ''two''] = None"
  by code_simp

text \<open>
  C2, amended: when \<open>open\<close> or \<open>write\<close> on the destination of a resource fails with an
  \<open>OSError\<close>, the exception and an error are logged, the hash index is left as it was,
  no file other than the destination is touched, and the loop over the submission's
  resources ends there, by a \<open>return\<close> and not by an exception: the remaining resources of
  the submission are not processed, as after a fetch failure or a duplicate.
\<close>

theorem write_failure_ends_submission:
  assumes "for_resources E self s c before w0 = (Continue, w)"
    and "files w destination = None" and "check_resource E res"
    and "download_result res = Inr content"
    and "os_mkdir E (parent destination) = None"
    and "master_hash_list w (md5 E content) = None
         \<or> (\<not> no_dupes (args self) \<and> \<not> make_hard_links (args self))"
    and "os_open E destination = Some e
         \<or> (os_open E destination = None \<and> os_write E destination content = Some (e, n))"
    and "isinstance E e OSError"
  shows "\<exists>w'. for_resources E self s c (before @ (destination, res) # rest) w0 = (Return, w')
           \<and> for_resources E self s c (before @ [(destination, res)]) w0 = (Return, w')
           \<and> logged w' = logged w @ [(ERROR, ExceptionTrace e),
                                       (ERROR, FailedWrite (submission_id s) destination e)]
           \<and> master_hash_list w' = master_hash_list w
           \<and> (\<forall>p. p \<noteq> destination \<longrightarrow> files w' p = files w p)"
proof -
  from write_resource_fails [OF assms(7,8), where s = s and h = "md5 E content" and w = w]
  obtain w' where w: "write_resource E s destination content (md5 E content) w = (Return, w')"
    and l: "logged w' = logged w @ [(ERROR, ExceptionTrace e),
                                     (ERROR, FailedWrite (submission_id s) destination e)]"
    and m: "master_hash_list w' = master_hash_list w"
    and f: "\<forall>p. p \<noteq> destination \<longrightarrow> files w' p = files w p"
    by blast
  from w loop_body_reaches_write [OF assms(2-6), of s c]
  have b: "loop_body E self s c destination res w = (Return, w')" by simp
  from for_resources_stops [OF assms(1) b] l m f show ?thesis by blast
qed

theorem write_failure_ends_submission_witness:
  "\<exists>w'. for_resources open_fails_env example_connector example_submission SelfPost
           ([] @ ([''out'', ''one''], resource_one) # [([''out'', ''two''], resource_two)])
           example_world = (Return, w')
         \<and> logged w' = logged example_world @
              [(ERROR, ExceptionTrace OSError),
               (ERROR, FailedWrite (submission_id example_submission) [''out'', ''one''] OSError)]
         \<and> master_hash_list w' = master_hash_list example_world"
proof -
  have 1: "for_resources open_fails_env example_connector example_submission SelfPost []
             example_world = (Continue, example_world)"
    by simp
  have 2: "files example_world [''out'', ''one''] = None"
    by (simp add: example_world_def)
  have 3: "check_resource open_fails_env resource_one"
    by (simp add: open_fails_env_def example_env_def)
  have 4: "download_result resource_one = Inr ''xx''"
    by (simp add: resource_one_def)
  have 5: "os_mkdir open_fails_env (parent [''out'', ''one'']) = None"
    by (simp add: open_fails_env_def example_env_def)
  have 6: "master_hash_list example_world (md5 open_fails_env ''xx'') = None
           \<or> (\<not> no_dupes (args example_connector) \<and> \<not> make_hard_links (args example_connector))"
    by (simp add: example_world_def)
  have 7: "os_open open_fails_env [''out'', ''one''] = Some OSError
           \<or> (os_open open_fails_env [''out'', ''one''] = None
               \<and> os_write open_fails_env [''out'', ''one''] ''xx'' = Some (OSError, 0))"
    by (simp add: open_fails_env_def example_env_def)
  have 8: "isinstance open_fails_env OSError OSError"
    by (simp add: isinstance_def)
  from write_failure_ends_submission [OF 1 2 3 4 5 6 7 8, of "[([''out'', ''two''], resource_two)]"]
  show ?thesis by blast
qed



section \<open>Exceptions that leave a submission\<close>

lemma loop_body_no_raise:
  assumes "resource_handled E s destination res" and "index_on_disk w"
  shows "fst (loop_body E self s c destination res w) \<noteq> Raise e"
proof -
  have l: "fst (link_resource E s destination existing w) \<noteq> Raise e"
    if "master_hash_list w h = Some existing" for h existing
  proof -
    from that assms(2) have "existing \<in> dom (files w)"
      by (auto simp: index_on_disk_def ran_def)
    then obtain c where "files w existing = Some c" by auto
    moreover have "os_link E existing destination = None"
      using assms(1) by (simp add: resource_handled_def)
    ultimately show ?thesis by (simp add: link_resource_def)
  qed
  have x: "fst (except_OSError E s destination e' w1) \<noteq> Raise e" if "isinstance E e' OSError" for e' w1
    using that by (simp add: except_OSError_def)
  have wr: "fst (write_resource E s destination content h w) \<noteq> Raise e" for content h
  proof (cases "os_open E destination")
    case (Some e')
    with assms(1) have "isinstance E e' OSError" by (simp add: resource_handled_def)
    from x [OF this] Some show ?thesis by (simp add: write_resource_def)
  next
    case None
    show ?thesis
    proof (cases "os_write E destination content")
      case (Some en)
      obtain e' n where en: "en = (e', n)" by (cases en)
      with Some assms(1) have "isinstance E e' OSError"
        unfolding resource_handled_def by blast
      from x [OF this] Some None en show ?thesis by (simp add: write_resource_def)
    next
      case w: None
      moreover have "os_utime E destination s = None"
        using assms(1) by (simp add: resource_handled_def)
      ultimately show ?thesis using None by (simp add: write_resource_def Let_def)
    qed
  qed
  have d: "isinstance E e' BulkDownloaderException" if "download_result res = Inl e'" for e'
    using assms(1) that by (simp add: resource_handled_def)
  have m: "os_mkdir E (parent destination) = None"
    using assms(1) by (simp add: resource_handled_def)
  show ?thesis
    unfolding loop_body_def Let_def
    using l wr d m by (auto split: sum.splits option.splits)
qed

lemma for_resources_no_raise:
  assumes "\<forall>(destination, res) \<in> set items. resource_handled E s destination res"
    and "index_on_disk w"
  shows "fst (for_resources E self s c items w) \<noteq> Raise e"
  using assms
proof (induction items arbitrary: w)
  case Nil
  show ?case by simp
next
  case (Cons item items)
  obtain destination res where item: "item = (destination, res)" by (cases item)
  obtain fl w1 where b: "loop_body E self s c destination res w = (fl, w1)" by fastforce
  from Cons.prems(1) item have h: "resource_handled E s destination res" by simp
  from loop_body_no_raise [OF h Cons.prems(2), of self c e] b have nr: "fl \<noteq> Raise e" by simp
  have "index_on_disk w1"
    using index_on_disk_grows [OF Cons.prems(2) loop_body_index_grows [OF b]] .
  with Cons.IH [of w1] Cons.prems(1)
  have "fst (for_resources E self s c items w1) \<noteq> Raise e" by simp
  with nr show ?case
    by (cases fl) (simp_all add: item b)
qed

lemma download_submission_no_raise:
  assumes "handled_only E s" and "index_on_disk w"
  shows "fst (download_submission E self s w) = None"
proof (cases "filter_rejection E self s")
  case (Some r)
  then show ?thesis by (simp add: download_submission_def)
next
  case None
  obtain printed lever where pl: "pull_lever (bracketed_ok E) (url s) = (printed, lever)"
    by fastforce
  define w2 where "w2 = (log_msg DEBUG (Attempting (submission_id s)) w)
                          \<lparr>stdout := stdout (log_msg DEBUG (Attempting (submission_id s)) w) @ printed\<rparr>"
  have x: "fst (except_NotADownloadable E e w1) = None"
    if "isinstance E e NotADownloadableLinkError" for e w1
    using that by (simp add: except_NotADownloadable_def)
  show ?thesis
  proof (cases lever)
    case (Inl e)
    with pl assms(1) have "isinstance E e NotADownloadableLinkError"
      by (simp add: handled_only_def)
    from x [OF this] None pl Inl show ?thesis
      by (simp add: download_submission_def Let_def)
  next
    case (Inr c)
    show ?thesis
    proof (cases "construct E c s")
      case (Some e)
      with assms(1) have "isinstance E e NotADownloadableLinkError"
        by (auto simp: handled_only_def)
      from x [OF this] None pl Inr Some show ?thesis
        by (simp add: download_submission_def Let_def)
    next
      case n: None
      define w3 where "w3 = log_msg DEBUG (Using (class_name c) (url s)) w2"
      have w3: "index_on_disk w3"
        using assms(2) by (simp add: w3_def w2_def index_on_disk_def)
      show ?thesis
      proof (cases "find_resources E c s")
        case (Inl e)
        with assms(1) have "isinstance E e SiteDownloaderError"
          by (auto simp: handled_only_def)
        with None pl Inr n Inl show ?thesis
          by (simp add: download_submission_def Let_def)
      next
        case content: (Inr content)
        from assms(1) content
        have "\<forall>(destination, res) \<in> set (format_resource_paths E content).
                 resource_handled E s destination res"
          by (auto simp: handled_only_def)
        from for_resources_no_raise [OF this w3]
        have nr: "fst (for_resources E self s c (format_resource_paths E content) w3) \<noteq> Raise e" for e .
        obtain fl w4 where fr:
          "for_resources E self s c (format_resource_paths E content) w3 = (fl, w4)"
          by fastforce
        with nr have "fl \<noteq> Raise e" for e by (metis fst_conv)
        then have "fl = Continue \<or> fl = Return" by (cases fl) auto
        with None pl Inr n content fr show ?thesis
          by (auto simp: download_submission_def Let_def w3_def w2_def)
      qed
    qed
  qed
qed

lemma for_submissions_no_raise:
  assumes "\<forall>s \<in> set subs. handled_only E s" and "index_on_disk w"
  shows "for_submissions E self subs w =
           (None, foldl (\<lambda>w s. snd (download_submission E self s w)) w subs)
         \<and> index_on_disk (foldl (\<lambda>w s. snd (download_submission E self s w)) w subs)"
  using assms
proof (induction subs arbitrary: w)
  case Nil
  then show ?case by simp
next
  case (Cons s subs)
  obtain r1 w1 where d: "download_submission E self s w = (r1, w1)" by fastforce
  from Cons.prems have "handled_only E s" by simp
  from download_submission_no_raise [OF this Cons.prems(2), of self] d have r1: "r1 = None" by simp
  have "index_on_disk w1"
    using index_on_disk_grows [OF Cons.prems(2) download_submission_index_grows [OF d]] .
  with Cons.IH [of w1] Cons.prems(1) show ?case
    by (simp add: d r1)
qed

lemma download_no_raise:
  assumes "\<forall>g \<in> set reddit_lists. \<forall>s \<in> set g. handled_only E s" and "index_on_disk w"
  shows "download E self reddit_lists w =
           (None, foldl (\<lambda>w s. snd (download_submission E self s w)) w (concat reddit_lists))"
  using assms
proof (induction reddit_lists arbitrary: w)
  case Nil
  then show ?case by simp
next
  case (Cons g gs)
  from Cons.prems have "\<forall>s \<in> set g. handled_only E s" by simp
  from for_submissions_no_raise [OF this Cons.prems(2), of self]
  have a: "for_submissions E self g w =
             (None, foldl (\<lambda>w s. snd (download_submission E self s w)) w g)"
    and i: "index_on_disk (foldl (\<lambda>w s. snd (download_submission E self s w)) w g)"
    by simp_all
  from Cons.IH [OF _ i] Cons.prems(1) a show ?case by simp
qed

lemma filter_rejection_eq: "filter_rejection E self s = first_rejection (filter_checks E self) s"
  unfolding filter_rejection_def first_rejection_def filter_checks_def author_or_deleted_def
  by (simp split: option.splits)

section \<open>The run\<close>

lemma example_lever:
  "snd (pull_lever any_host ''http://reddit.com/r/test/abc123'') = Inr SelfPost"
  "snd (pull_lever any_host ''http://reddit.com/r/test/def456'') = Inr SelfPost"
  by code_simp+

text \<open>
  C1 as stated does not hold: no handler surrounds the timestamp stamping (nor directory
  creation, hard-link creation, or the URL parsing in dispatch), and \<open>download\<close> has
  none at all.  When \<open>os.utime\<close> fails for the first resource of the first submission,
  \<open>OSError\<close> leaves \<open>_download_submission\<close> and \<open>download\<close>: the failure is not logged,
  and the second submission is never attempted.
\<close>

theorem download_unhandled_error_counterexample:
  "os_utime utime_fails_env [''out'', ''one''] example_submission = Some OSError
   \<and> fst (download utime_fails_env example_connector
               [[example_submission, second_submission]] example_world)
     = Some OSError
   \<and> logged (snd (download utime_fails_env example_connector
                     [[example_submission, second_submission]] example_world))
     = [(DEBUG, Attempting ''abc123''),
        (DEBUG, Using ''SelfPost'' ''http://reddit.com/r/test/abc123''),
        (DEBUG, Written [''out'', ''one''])]
   \<and> files (snd (download utime_fails_env example_connector
                    [[example_submission, second_submission]] example_world))
        [''out'', ''one''] = Some ''xx''"
  by code_simp

text \<open>
  C1, amended: if, for every submission of the run, processing raises only what the
  handlers name (dispatch and construction only \<open>NotADownloadableLinkError\<close>, extraction
  only \<open>SiteDownloaderError\<close>, a fetch only \<open>BulkDownloaderException\<close>, \<open>open\<close> and
  \<open>write\<close> only \<open>OSError\<close>) and directory creation, hard-link creation and timestamp
  stamping raise nothing, and if every path in the hash index is on disk when the run
  starts, then no exception leaves \<open>_download_submission\<close>, and \<open>download\<close> returns
  after processing every submission in order.
\<close>

theorem download_handled_errors:
  assumes "\<forall>g \<in> set reddit_lists. \<forall>s \<in> set g. handled_only E s"
    and "index_on_disk w"
  shows "download E self reddit_lists w =
           (None, foldl (\<lambda>w s. snd (download_submission E self s w)) w (concat reddit_lists))
         \<and> (\<forall>g \<in> set reddit_lists. \<forall>s \<in> set g. \<forall>w1. index_on_disk w1 \<longrightarrow>
               fst (download_submission E self s w1) = None)"
  using download_no_raise [OF assms] assms(1) download_submission_no_raise by blast

text \<open>The run where every fetch of the first resource fails: both submissions are
  attempted, each failure is logged.\<close>

theorem download_handled_errors_witness:
  "handled_only fetch_fails_env example_submission
   \<and> handled_only fetch_fails_env second_submission
   \<and> index_on_disk example_world
   \<and> fst (download fetch_fails_env example_connector
               [[example_submission, second_submission]] example_world)
       = None
   \<and> logged (snd (download fetch_fails_env example_connector
                     [[example_submission, second_submission]] example_world))
       = [(DEBUG, Attempting ''abc123''),
          (DEBUG, Using ''SelfPost'' ''http://reddit.com/r/test/abc123''),
          (ERROR, FailedDownload ''one'' ''abc123'' ''SelfPost'' BulkDownloaderException),
          (DEBUG, Attempting ''def456''),
          (DEBUG, Using ''SelfPost'' ''http://reddit.com/r/test/def456''),
          (ERROR, FailedDownload ''one'' ''def456'' ''SelfPost'' BulkDownloaderException)]"
proof -
  have r: "resource_handled fetch_fails_env s destination res"
    if "res = resource_one\<lparr>download_result := Inl BulkDownloaderException\<rparr> \<or> res = resource_two"
    for s destination res
    using that
    by (auto simp: resource_handled_def fetch_fails_env_def example_env_def isinstance_def
                   resource_one_def resource_two_def)
  have h: "handled_only fetch_fails_env s"
    if "snd (pull_lever any_host (url s)) = Inr SelfPost" for s
    unfolding handled_only_def using that r
    by (auto simp: fetch_fails_env_def example_env_def)
  have h1: "handled_only fetch_fails_env example_submission"
    by (rule h) (simp add: example_submission_def example_lever)
  have h2: "handled_only fetch_fails_env second_submission"
    by (rule h) (simp add: second_submission_def example_submission_def example_lever)
  have i: "index_on_disk example_world"
    by (simp add: index_on_disk_def example_world_def)
  have a: "\<forall>g \<in> set [[example_submission, second_submission]]. \<forall>s \<in> set g.
             handled_only fetch_fails_env s"
    using h1 h2 by simp
  have l: "logged (snd (download fetch_fails_env example_connector
                     [[example_submission, second_submission]] example_world))
       = [(DEBUG, Attempting ''abc123''),
          (DEBUG, Using ''SelfPost'' ''http://reddit.com/r/test/abc123''),
          (ERROR, FailedDownload ''one'' ''abc123'' ''SelfPost'' BulkDownloaderException),
          (DEBUG, Attempting ''def456''),
          (DEBUG, Using ''SelfPost'' ''http://reddit.com/r/test/def456''),
          (ERROR, FailedDownload ''one'' ''def456'' ''SelfPost'' BulkDownloaderException)]"
    by code_simp
  from download_handled_errors [OF a i, of example_connector] h1 h2 i l
  show ?thesis by simp
qed

text \<open>
  C6 as stated does not hold: with neither the no-duplicates nor the hard-link policy, a
  resource whose hash is already indexed is written again and the index entry is replaced
  by the later path.
\<close>

theorem hash_index_replaced_counterexample:
  "\<not> no_dupes (args example_connector) \<and> \<not> make_hard_links (args example_connector)
   \<and> master_hash_list indexed_world ''xx'' = Some [''out'', ''a'']
   \<and> files indexed_world [''out'', ''a''] = Some ''xx''
   \<and> fst (download example_env example_connector [[example_submission]] indexed_world) = None
   \<and> master_hash_list (snd (download example_env example_connector [[example_submission]]
                               indexed_world)) ''xx''
       = Some [''out'', ''one'']"
  by code_simp

text \<open>
  C6, amended: throughout a run, the hash index never loses an entry; an entry that is
  new or changed maps the hash to a path where a file with that content hash is on disk;
  and while the no-duplicates or the hard-link policy is active, the path of a hash that
  is present is never replaced (the index keeps the first path).  With neither policy an
  entry may be replaced by the path of a later copy of the same content.
\<close>

theorem hash_index_grows:
  assumes "download E self reddit_lists w = (r, w')"
  shows "dom (master_hash_list w) \<subseteq> dom (master_hash_list w')
         \<and> (\<forall>h p. master_hash_list w' h = Some p \<longrightarrow>
                master_hash_list w h = Some p \<or> (\<exists>c. files w' p = Some c \<and> md5 E c = h))
         \<and> (no_dupes (args self) \<or> make_hard_links (args self) \<longrightarrow>
                (\<forall>h \<in> dom (master_hash_list w). master_hash_list w' h = master_hash_list w h))"
  using download_index_grows [OF assms] unfolding index_grows_def by blast

theorem hash_index_grows_witness:
  "no_dupes (args no_dupes_connector)
   \<and> master_hash_list indexed_world ''xx'' = Some [''out'', ''a'']
   \<and> master_hash_list (snd (download example_env no_dupes_connector
                               [[example_submission]] indexed_world)) ''xx''
       = Some [''out'', ''a'']
   \<and> dom (master_hash_list indexed_world)
       \<subseteq> dom (master_hash_list (snd (download example_env no_dupes_connector
                                         [[example_submission]] indexed_world)))"
proof -
  have h: "download example_env no_dupes_connector [[example_submission]] indexed_world
           = (fst (download example_env no_dupes_connector [[example_submission]] indexed_world),
              snd (download example_env no_dupes_connector [[example_submission]] indexed_world))"
    by simp
  have n: "no_dupes (args no_dupes_connector)"
    by (simp add: no_dupes_connector_def)
  have x: "master_hash_list indexed_world ''xx'' = Some [''out'', ''a'']"
    by (simp add: indexed_world_def)
  then have d: "''xx'' \<in> dom (master_hash_list indexed_world)" by auto
  from hash_index_grows [OF h] n d x show ?thesis by auto
qed

text \<open>
  C8: the filter evaluates its checks in the order exclusion id, skip-subreddit,
  ignore-author (a deleted author counts as \<open>DELETED\<close>), minimum score, maximum score,
  score-ratio bounds, type check, URL filter: what \<open>_download_submission\<close> logs on
  rejection is the record of the first check in this order that rejects, whatever the
  later checks would say.  A rejected submission changes nothing but the log, by that
  one record: nothing of the dispatch is logged or printed.
\<close>

theorem filter_rejects_in_order:
  "filter_rejection E self s = first_rejection (filter_checks E self) s
   \<and> (\<forall>i < length (filter_checks E self).
          fst (filter_checks E self ! i) s \<and> (\<forall>j < i. \<not> fst (filter_checks E self ! j) s) \<longrightarrow>
            filter_rejection E self s = Some (snd (filter_checks E self ! i) s))
   \<and> (\<forall>r. filter_rejection E self s = Some r \<longrightarrow>
          (\<forall>w. download_submission E self s w = (None, w\<lparr>logged := logged w @ [r]\<rparr>)))"
proof -
  have a: "first_rejection checks s = Some (snd (checks ! i) s)"
    if "i < length checks" and "fst (checks ! i) s" and "\<forall>j < i. \<not> fst (checks ! j) s"
    for checks i
  proof -
    from that have "find (\<lambda>c. fst c s) checks = Some (checks ! i)"
      unfolding find_Some_iff by blast
    then show ?thesis by (simp add: first_rejection_def)
  qed
  have b: "download_submission E self s w = (None, w\<lparr>logged := logged w @ [r]\<rparr>)"
    if "filter_rejection E self s = Some r" for r w
    using that by (simp add: download_submission_def)
  from a b show ?thesis
    unfolding filter_rejection_eq by blast
qed

theorem filter_rejects_in_order_witness:
  "first_rejection (filter_checks example_env example_connector) low_score_submission
     = Some (DEBUG, ScoreBelowMin ''abc123'' 5 (Some 10))
   \<and> download_submission example_env example_connector low_score_submission example_world
       = (None, example_world\<lparr>logged := logged example_world @
                                  [(DEBUG, ScoreBelowMin ''abc123'' 5 (Some 10))]\<rparr>)
   \<and> stdout (snd (download_submission example_env example_connector low_score_submission
                     example_world)) = []"
proof -
  have f: "first_rejection (filter_checks example_env example_connector) low_score_submission
             = Some (DEBUG, ScoreBelowMin ''abc123'' 5 (Some 10))"
    by code_simp
  from filter_rejects_in_order [of example_env example_connector low_score_submission] f
    filter_rejection_eq [of example_env example_connector low_score_submission]
  have d: "download_submission example_env example_connector low_score_submission example_world
       = (None, example_world\<lparr>logged := logged example_world @
                                  [(DEBUG, ScoreBelowMin ''abc123'' 5 (Some 10))]\<rparr>)"
    by simp
  with f show ?thesis by (simp add: example_world_def)
qed


end
